theory Spec2Isabelle
  imports Complex_Main "HOL-Library.AList" "HOL-Library.Log_Nat"
begin

section \<open>Python exceptions\<close>

text \<open>
  The exceptions that the modelled code can raise or let through. \<open>BrokerError\<close> stands
  for any exception of class \<open>Exception\<close> raised inside a gateway call;
  \<open>KeyboardInterrupt\<close> and \<open>SystemExit\<close> derive from \<open>BaseException\<close> only, so an
  \<open>except Exception\<close> clause does not catch them.
\<close>

datatype exn =
    KeyError string
  | IndexError
  | ValueError
  | TypeError
  | BrokerError string
  | KeyboardInterrupt
  | SystemExit

fun is_Exception :: "exn \<Rightarrow> bool" where
  "is_Exception KeyboardInterrupt = False"
| "is_Exception SystemExit = False"
| "is_Exception _ = True"

section \<open>Python floats\<close>

text \<open>
  Prices are Python floats, that is IEEE 754 double precision numbers. A float is
  modelled by the real number it holds. The sum, the difference, the product and the
  quotient of two floats are the exact result rounded to the nearest number with a
  significand of 53 bits, ties going to the even significand; comparisons are exact.
  Overflow, subnormal numbers, infinities and NaN are not modelled.
\<close>

text \<open>The nearest integer, ties to even.\<close>

definition round_even :: "real \<Rightarrow> int" where
  "round_even y =
     (let f = \<lfloor>y\<rfloor> in
      if y - of_int f < 1 / 2 then f
      else if y - of_int f > 1 / 2 then f + 1
      else if even f then f else f + 1)"

text \<open>The exponent \<open>k\<close> with \<open>2 ^ k \<le> |x| < 2 ^ (k + 1)\<close>, for \<open>x\<close> other than zero.\<close>

definition binade :: "real \<Rightarrow> int" where
  "binade x = (if 1 \<le> \<bar>x\<bar> then bitlen \<lfloor>\<bar>x\<bar>\<rfloor> - 1 else - bitlen (\<lceil>1 / \<bar>x\<bar>\<rceil> - 1))"

definition round_double :: "real \<Rightarrow> real" where
  "round_double x =
     (if x = 0 then 0
      else if binade x \<le> 52
      then of_int (round_even (x * 2 ^ nat (52 - binade x))) / 2 ^ nat (52 - binade x)
      else of_int (round_even (x / 2 ^ nat (binade x - 52))) * 2 ^ nat (binade x - 52))"

definition float_add :: "real \<Rightarrow> real \<Rightarrow> real" where
  "float_add x y = round_double (x + y)"

definition float_sub :: "real \<Rightarrow> real \<Rightarrow> real" where
  "float_sub x y = round_double (x - y)"

definition float_mul :: "real \<Rightarrow> real \<Rightarrow> real" where
  "float_mul x y = round_double (x * y)"

definition float_div :: "real \<Rightarrow> real \<Rightarrow> real" where
  "float_div x y = round_double (x / y)"

section \<open>strategy\_manager.py: StrategyManager\<close>

text \<open>
  \<open>StrategyManager\<close> holds \<open>self.process\<close> (a \<open>multiprocessing.Process\<close> or \<open>None\<close>) and
  \<open>self.log_queue\<close>. A process object is identified by a number; the operating system's
  side is the set of process objects that are currently alive and the list of those that
  were ever created. The log queue is a FIFO buffer.
\<close>

type_synonym pid = nat

record manager =
  process :: "pid option"
  log_queue :: "string list"
  alive :: "pid set"
  created :: "pid list"

definition manager_init :: manager where
  "manager_init = \<lparr>process = None, log_queue = [], alive = {}, created = []\<rparr>"

text \<open>\<open>self.process and self.process.is_alive()\<close>\<close>

definition process_is_alive :: "manager \<Rightarrow> bool" where
  "process_is_alive m = (case process m of None \<Rightarrow> False | Some p \<Rightarrow> p \<in> alive m)"

text \<open>
  What \<open>start\<close> finds on disk for \<open>strategy/configs/<name>.yml\<close>: no file, a file whose
  loading raises (\<open>open\<close>, \<open>yaml.safe_load\<close>, the \<open>['default']\<close> lookup or \<open>config.update\<close>),
  or a file that loads. \<open>spawn_raises\<close> is the exception that \<open>Process.start()\<close> raises, if any.
\<close>

datatype config_file = NotFound | LoadRaises exn | Loaded

record start_env =
  config_of :: "string \<Rightarrow> config_file"
  spawn_raises :: "exn option"

definition start :: "start_env \<Rightarrow> string \<Rightarrow> manager \<Rightarrow> (exn + string) \<times> manager" where
  "start env strategy_name m =
     (if process_is_alive m then (Inr ''Strategy is already running.'', m)
      else case config_of env strategy_name of
          NotFound \<Rightarrow>
            (Inr (''Error: Configuration file for strategy '' @ [CHR 0x27] @ strategy_name
                  @ [CHR 0x27] @ '' not found.''), m)
        | LoadRaises e \<Rightarrow> (Inl e, m)
        | Loaded \<Rightarrow>
            (let p = length (created m);
                 m1 = m\<lparr>process := Some p, created := created m @ [p]\<rparr>
             in case spawn_raises env of
                  Some e \<Rightarrow> (Inl e, m1)
                | None \<Rightarrow>
                    (Inr (''Strategy '' @ [CHR 0x27] @ strategy_name @ [CHR 0x27] @ '' started.''),
                     m1\<lparr>alive := insert p (alive m1)\<rparr>)))"

definition stop :: "manager \<Rightarrow> string \<times> manager" where
  "stop m =
     (if \<not> process_is_alive m then (''Strategy is not running.'', m)
      else (''Strategy stopped.'', m\<lparr>alive := alive m - set_option (process m)\<rparr>))"

definition get_status :: "manager \<Rightarrow> string" where
  "get_status m = (if process_is_alive m then ''Running'' else ''Stopped'')"

text \<open>
  \<open>get_logs\<close>: \<open>while not self.log_queue.empty(): logs.append(self.log_queue.get())\<close>.
  The loop takes the head of the buffer until the buffer is empty.
\<close>

fun get_logs_loop :: "string list \<Rightarrow> string list \<Rightarrow> string list \<times> string list" where
  "get_logs_loop logs [] = (logs, [])"
| "get_logs_loop logs (msg # q) = get_logs_loop (logs @ [msg]) q"

definition get_logs :: "manager \<Rightarrow> string list \<times> manager" where
  "get_logs m = (case get_logs_loop [] (log_queue m) of (logs, q) \<Rightarrow> (logs, m\<lparr>log_queue := q\<rparr>))"

text \<open>
  What can happen to one manager, one step at a time: its caller calls \<open>start\<close>, \<open>stop\<close>
  or \<open>get_logs\<close>; the child process puts a line on the log queue (\<open>log_queue.put\<close> in
  \<open>run_strategy\<close>); the child process ends by itself.
\<close>

datatype manager_op =
    Start start_env string
  | Stop
  | GetLogs
  | ChildPuts string
  | ChildExits

fun manager_step :: "manager_op \<Rightarrow> manager \<Rightarrow> manager" where
  "manager_step (Start env name) m = snd (start env name m)"
| "manager_step Stop m = snd (stop m)"
| "manager_step GetLogs m = snd (get_logs m)"
| "manager_step (ChildPuts msg) m = m\<lparr>log_queue := log_queue m @ [msg]\<rparr>"
| "manager_step ChildExits m = m\<lparr>alive := alive m - set_option (process m)\<rparr>"

fun manager_run :: "manager_op list \<Rightarrow> manager \<Rightarrow> manager" where
  "manager_run [] m = m"
| "manager_run (a # ops) m = manager_run ops (manager_step a m)"

text \<open>The lines returned by the \<open>get_logs\<close> calls of a run, one list per call.\<close>

fun manager_drained :: "manager_op list \<Rightarrow> manager \<Rightarrow> string list list" where
  "manager_drained [] m = []"
| "manager_drained (GetLogs # ops) m = fst (get_logs m) # manager_drained ops (snd (get_logs m))"
| "manager_drained (a # ops) m = manager_drained ops (manager_step a m)"

text \<open>The lines put on the queue during a run, in order.\<close>

fun manager_puts :: "manager_op list \<Rightarrow> string list" where
  "manager_puts [] = []"
| "manager_puts (ChildPuts msg # ops) = msg # manager_puts ops"
| "manager_puts (_ # ops) = manager_puts ops"

section \<open>strategy/fvg\_strategy.py: the data\<close>

type_synonym symbol = string
type_synonym order_id = string

text \<open>
  A position is the dictionary that \<open>_place_order\<close> stores in \<open>self.positions[symbol]\<close>.
  The keys \<open>sl_order_id\<close> and \<open>target_order_id\<close> are absent until \<open>place_exit_orders\<close>
  sets them, so they are optional fields here; reading an absent key raises \<open>KeyError\<close>.
  Prices are Python floats: real numbers, combined with \<open>float_add\<close>, \<open>float_sub\<close>,
  \<open>float_mul\<close> and \<open>float_div\<close>.
\<close>

datatype pos_status = PENDING_ENTRY | OPEN | CLOSED_SL | CLOSED_TARGET

datatype position_type = LONG | SHORT

record position =
  order_id :: order_id
  entry_price :: real
  stop_loss :: real
  target :: real
  status :: pos_status
  ptype :: position_type
  sl_order_id :: "order_id option"
  target_order_id :: "order_id option"

text \<open>
  The registry \<open>self.positions\<close> is a dictionary in insertion order: an association list.
  \<open>AList.update\<close> replaces the value of a key that is present and appends a new key at
  the end, as the assignment \<open>self.positions[symbol] = ...\<close> does.
\<close>

type_synonym registry = "(symbol \<times> position) list"

subsection \<open>The gateway\<close>

datatype TransactionType = BUY | SELL
datatype OrderType = STOP | LIMIT
datatype ProductType = MARGIN

record order_request =
  symbol :: string
  exchange :: string
  transaction_type :: TransactionType
  quantity :: nat
  product_type :: ProductType
  order_type :: OrderType
  price :: real
  stop_price :: "real option"

record order_response =
  resp_status :: string
  resp_order_id :: order_id
  message :: string

record candle =
  high :: real
  low :: real
  close :: real
  volume :: real

datatype call =
    GetOrderStatus order_id
  | PlaceOrder order_request
  | CancelOrder order_id
  | GetQuote symbol
  | GetHistory symbol

text \<open>
  The module \<open>brokers\<close> is an external collaborator. A gateway is any object with these
  methods; what a method answers may depend on every call made so far (the first
  argument), and every method may raise. \<open>get_quote\<close> gives \<open>quote.last_price\<close>.
  \<open>exchanges\<close> are the member names of the enumeration \<open>Exchange\<close>.
\<close>

record broker =
  get_order_status :: "call list \<Rightarrow> order_id \<Rightarrow> exn + string"
  place_order :: "call list \<Rightarrow> order_request \<Rightarrow> exn + order_response"
  cancel_order :: "call list \<Rightarrow> order_id \<Rightarrow> exn option"
  get_quote :: "call list \<Rightarrow> symbol \<Rightarrow> exn + real"
  get_history :: "call list \<Rightarrow> symbol \<Rightarrow> exn + candle list"
  exchanges :: "string list"

datatype log_msg =
    RunningFVG
  | AnalyzingFVG
  | ErrorProcessing symbol exn
  | LongEntryMet symbol real real real
  | ShortEntryMet symbol real real real
  | OrderPlaced symbol order_id
  | FailedToPlace symbol string
  | MovedSLToBreakeven symbol
  | SLHit symbol
  | TargetHit symbol

text \<open>The effects of the strategy outside its registry: the gateway calls, and the log.\<close>

record effects =
  trace :: "call list"
  log :: "log_msg list"

definition no_effects :: effects where
  "no_effects = \<lparr>trace = [], log = []\<rparr>"

definition logger :: "log_msg \<Rightarrow> effects \<Rightarrow> effects" where
  "logger msg fx = fx\<lparr>log := log fx @ [msg]\<rparr>"

definition call_get_order_status :: "broker \<Rightarrow> order_id \<Rightarrow> effects \<Rightarrow> (exn + string) \<times> effects" where
  "call_get_order_status br oid fx =
     (get_order_status br (trace fx) oid, fx\<lparr>trace := trace fx @ [GetOrderStatus oid]\<rparr>)"

definition call_place_order :: "broker \<Rightarrow> order_request \<Rightarrow> effects \<Rightarrow> (exn + order_response) \<times> effects" where
  "call_place_order br req fx =
     (place_order br (trace fx) req, fx\<lparr>trace := trace fx @ [PlaceOrder req]\<rparr>)"

definition call_cancel_order :: "broker \<Rightarrow> order_id \<Rightarrow> effects \<Rightarrow> exn option \<times> effects" where
  "call_cancel_order br oid fx =
     (cancel_order br (trace fx) oid, fx\<lparr>trace := trace fx @ [CancelOrder oid]\<rparr>)"

definition call_get_quote :: "broker \<Rightarrow> symbol \<Rightarrow> effects \<Rightarrow> (exn + real) \<times> effects" where
  "call_get_quote br smb fx =
     (get_quote br (trace fx) smb, fx\<lparr>trace := trace fx @ [GetQuote smb]\<rparr>)"

definition call_get_history :: "broker \<Rightarrow> symbol \<Rightarrow> effects \<Rightarrow> (exn + candle list) \<times> effects" where
  "call_get_history br smb fx =
     (get_history br (trace fx) smb, fx\<lparr>trace := trace fx @ [GetHistory smb]\<rparr>)"

subsection \<open>Symbols\<close>

text \<open>\<open>symbol.split(':')\<close>\<close>

fun split_colon :: "string \<Rightarrow> string list" where
  "split_colon [] = [[]]"
| "split_colon (c # cs) =
     (if c = CHR '':'' then [] # split_colon cs
      else (case split_colon cs of [] \<Rightarrow> [[c]] | w # ws \<Rightarrow> (c # w) # ws))"

text \<open>
  The arguments \<open>symbol=symbol.split(':')[1]\<close> and \<open>exchange=Exchange[symbol.split(':')[0]]\<close>
  of an exit order, in the order Python evaluates them: \<open>IndexError\<close> when the symbol has
  no colon, then \<open>KeyError\<close> when the part before the first colon names no exchange.
\<close>

definition symbol_exchange :: "broker \<Rightarrow> symbol \<Rightarrow> exn + string \<times> string" where
  "symbol_exchange br smb =
     (case split_colon smb of
        exch # name # _ \<Rightarrow>
          if exch \<in> set (exchanges br) then Inr (name, exch) else Inl (KeyError exch)
      | _ \<Rightarrow> Inl IndexError)"

section \<open>strategy/fvg\_strategy.py: FVGStrategy\<close>

text \<open>
  Every method below takes the registry (or the one position it works on) and the
  effects so far, and returns the exception it raised, if any, with the registry and
  the effects as they are at that moment: a dictionary mutated before the exception
  stays mutated.
\<close>

subsection \<open>place\_exit\_orders\<close>

definition sl_req :: "string \<times> string \<Rightarrow> position \<Rightarrow> order_request" where
  "sl_req ne pos =
     \<lparr>symbol = fst ne, exchange = snd ne,
      transaction_type = (if ptype pos = LONG then SELL else BUY),
      quantity = 1, product_type = MARGIN, order_type = STOP,
      price = stop_loss pos, stop_price = Some (stop_loss pos)\<rparr>"

definition tgt_req :: "string \<times> string \<Rightarrow> position \<Rightarrow> order_request" where
  "tgt_req ne pos =
     \<lparr>symbol = fst ne, exchange = snd ne,
      transaction_type = (if ptype pos = LONG then SELL else BUY),
      quantity = 1, product_type = MARGIN, order_type = LIMIT,
      price = target pos, stop_price = None\<rparr>"

definition place_exit_orders ::
  "broker \<Rightarrow> symbol \<Rightarrow> position \<Rightarrow> effects \<Rightarrow> exn option \<times> position \<times> effects" where
  "place_exit_orders br smb pos fx =
     (case symbol_exchange br smb of
        Inl e \<Rightarrow> (Some e, pos, fx)
      | Inr ne \<Rightarrow>
         (case call_place_order br (sl_req ne pos) fx of
            (Inl e, fx1) \<Rightarrow> (Some e, pos, fx1)
          | (Inr sl_resp, fx1) \<Rightarrow>
             (let pos1 = (if resp_status sl_resp = ''ok''
                          then pos\<lparr>sl_order_id := Some (resp_order_id sl_resp)\<rparr> else pos)
              in case call_place_order br (tgt_req ne pos1) fx1 of
                   (Inl e, fx2) \<Rightarrow> (Some e, pos1, fx2)
                 | (Inr tgt_resp, fx2) \<Rightarrow>
                     (None,
                      (if resp_status tgt_resp = ''ok''
                       then pos1\<lparr>target_order_id := Some (resp_order_id tgt_resp)\<rparr> else pos1),
                      fx2))))"

subsection \<open>Loops over the registry\<close>

text \<open>
  \<open>for symbol, pos in self.positions.items(): ...\<close> where the body mutates \<open>pos\<close> in
  place and never the keys. An exception in the body leaves the loop.
\<close>

fun for_items ::
  "(symbol \<Rightarrow> position \<Rightarrow> effects \<Rightarrow> exn option \<times> position \<times> effects)
   \<Rightarrow> registry \<Rightarrow> effects \<Rightarrow> exn option \<times> registry \<times> effects" where
  "for_items body [] fx = (None, [], fx)"
| "for_items body ((smb, pos) # rest) fx =
     (case body smb pos fx of
        (Some e, pos1, fx1) \<Rightarrow> (Some e, (smb, pos1) # rest, fx1)
      | (None, pos1, fx1) \<Rightarrow>
         (case for_items body rest fx1 of
            (r, rest1, fx2) \<Rightarrow> (r, (smb, pos1) # rest1, fx2)))"

subsection \<open>check\_open\_orders\<close>

definition check_open_order ::
  "broker \<Rightarrow> symbol \<Rightarrow> position \<Rightarrow> effects \<Rightarrow> exn option \<times> position \<times> effects" where
  "check_open_order br smb pos fx =
     (if status pos = PENDING_ENTRY then
        (case call_get_order_status br (order_id pos) fx of
           (Inl e, fx1) \<Rightarrow> (Some e, pos, fx1)
         | (Inr order_status, fx1) \<Rightarrow>
             if order_status = ''FILLED''
             then place_exit_orders br smb (pos\<lparr>status := OPEN\<rparr>) fx1
             else (None, pos, fx1))
      else (None, pos, fx))"

definition check_open_orders :: "broker \<Rightarrow> registry \<Rightarrow> effects \<Rightarrow> exn option \<times> registry \<times> effects" where
  "check_open_orders br ps fx = for_items (check_open_order br) ps fx"

subsection \<open>manage\_positions\<close>

text \<open>Lines 181 to 182 and 189 to 190: the two conditions under which the stop is moved.\<close>

definition breakeven_due :: "position \<Rightarrow> real \<Rightarrow> bool" where
  "breakeven_due pos last_price =
     (if ptype pos = LONG
      then last_price \<ge> float_add (entry_price pos)
                           (float_div (float_sub (target pos) (entry_price pos)) 2)
           \<and> stop_loss pos < entry_price pos
      else last_price \<le> float_sub (entry_price pos)
                           (float_div (float_sub (entry_price pos) (target pos)) 2)
           \<and> stop_loss pos > entry_price pos)"

text \<open>Lines 183 to 187 (and 191 to 195, which are the same).\<close>

definition move_to_breakeven ::
  "broker \<Rightarrow> symbol \<Rightarrow> position \<Rightarrow> effects \<Rightarrow> exn option \<times> position \<times> effects" where
  "move_to_breakeven br smb pos fx =
     (case sl_order_id pos of
        None \<Rightarrow> (Some (KeyError ''sl_order_id''), pos, fx)
      | Some sl \<Rightarrow>
         (case call_cancel_order br sl fx of
            (Some e, fx1) \<Rightarrow> (Some e, pos, fx1)
          | (None, fx1) \<Rightarrow>
             (case target_order_id pos of
                None \<Rightarrow> (Some (KeyError ''target_order_id''), pos, fx1)
              | Some tg \<Rightarrow>
                 (case call_cancel_order br tg fx1 of
                    (Some e, fx2) \<Rightarrow> (Some e, pos, fx2)
                  | (None, fx2) \<Rightarrow>
                     (case place_exit_orders br smb (pos\<lparr>stop_loss := entry_price pos\<rparr>) fx2 of
                        (Some e, pos1, fx3) \<Rightarrow> (Some e, pos1, fx3)
                      | (None, pos1, fx3) \<Rightarrow>
                          (None, pos1, logger (MovedSLToBreakeven smb) fx3))))))"

text \<open>Lines 197 to 201.\<close>

definition check_sl ::
  "broker \<Rightarrow> symbol \<Rightarrow> position \<Rightarrow> effects \<Rightarrow> exn option \<times> position \<times> effects" where
  "check_sl br smb pos fx =
     (case sl_order_id pos of
        None \<Rightarrow> (Some (KeyError ''sl_order_id''), pos, fx)
      | Some sl \<Rightarrow>
         (case call_get_order_status br sl fx of
            (Inl e, fx1) \<Rightarrow> (Some e, pos, fx1)
          | (Inr sl_status, fx1) \<Rightarrow>
             if sl_status = ''FILLED'' then
               (case target_order_id pos of
                  None \<Rightarrow> (Some (KeyError ''target_order_id''), pos, fx1)
                | Some tg \<Rightarrow>
                   (case call_cancel_order br tg fx1 of
                      (Some e, fx2) \<Rightarrow> (Some e, pos, fx2)
                    | (None, fx2) \<Rightarrow>
                        (None, pos\<lparr>status := CLOSED_SL\<rparr>, logger (SLHit smb) fx2)))
             else (None, pos, fx1)))"

text \<open>Lines 203 to 207.\<close>

definition check_target ::
  "broker \<Rightarrow> symbol \<Rightarrow> position \<Rightarrow> effects \<Rightarrow> exn option \<times> position \<times> effects" where
  "check_target br smb pos fx =
     (case target_order_id pos of
        None \<Rightarrow> (Some (KeyError ''target_order_id''), pos, fx)
      | Some tg \<Rightarrow>
         (case call_get_order_status br tg fx of
            (Inl e, fx1) \<Rightarrow> (Some e, pos, fx1)
          | (Inr tgt_status, fx1) \<Rightarrow>
             if tgt_status = ''FILLED'' then
               (case sl_order_id pos of
                  None \<Rightarrow> (Some (KeyError ''sl_order_id''), pos, fx1)
                | Some sl \<Rightarrow>
                   (case call_cancel_order br sl fx1 of
                      (Some e, fx2) \<Rightarrow> (Some e, pos, fx2)
                    | (None, fx2) \<Rightarrow>
                        (None, pos\<lparr>status := CLOSED_TARGET\<rparr>, logger (TargetHit smb) fx2)))
             else (None, pos, fx1)))"

text \<open>Lines 197 to 207: the two checks, one after the other.\<close>

definition reconcile ::
  "broker \<Rightarrow> symbol \<Rightarrow> position \<Rightarrow> effects \<Rightarrow> exn option \<times> position \<times> effects" where
  "reconcile br smb pos fx =
     (case check_sl br smb pos fx of
        (Some e, pos1, fx1) \<Rightarrow> (Some e, pos1, fx1)
      | (None, pos1, fx1) \<Rightarrow> check_target br smb pos1 fx1)"

text \<open>The body of the loop of \<open>manage_positions\<close>, lines 178 to 207.\<close>

definition manage_position ::
  "broker \<Rightarrow> symbol \<Rightarrow> position \<Rightarrow> effects \<Rightarrow> exn option \<times> position \<times> effects" where
  "manage_position br smb pos fx =
     (if status pos = OPEN then
        (case call_get_quote br smb fx of
           (Inl e, fx1) \<Rightarrow> (Some e, pos, fx1)
         | (Inr last_price, fx1) \<Rightarrow>
            (case (if breakeven_due pos last_price
                   then move_to_breakeven br smb pos fx1 else (None, pos, fx1)) of
               (Some e, pos1, fx2) \<Rightarrow> (Some e, pos1, fx2)
             | (None, pos1, fx2) \<Rightarrow> reconcile br smb pos1 fx2))
      else (None, pos, fx))"

definition manage_positions :: "broker \<Rightarrow> registry \<Rightarrow> effects \<Rightarrow> exn option \<times> registry \<times> effects" where
  "manage_positions br ps fx = for_items (manage_position br) ps fx"

subsection \<open>\_place\_order\<close>

text \<open>
  \<open>exchange_str, _ = symbol.split(':')\<close> raises \<open>ValueError\<close> unless the symbol has
  exactly one colon; \<open>Exchange[exchange_str]\<close> raises \<open>KeyError\<close> for an unknown exchange.
\<close>

definition strategy_place_order ::
  "broker \<Rightarrow> symbol \<Rightarrow> nat \<Rightarrow> TransactionType \<Rightarrow> real \<Rightarrow> real \<Rightarrow> real \<Rightarrow> position_type
   \<Rightarrow> registry \<Rightarrow> effects \<Rightarrow> exn option \<times> registry \<times> effects" where
  "strategy_place_order br smb qty ttype entry sl tgt position_type ps fx =
     (case split_colon smb of
        [exchange_str, name] \<Rightarrow>
          if exchange_str \<in> set (exchanges br) then
            (case call_place_order br
                    \<lparr>symbol = name, exchange = exchange_str, transaction_type = ttype,
                     quantity = qty, product_type = MARGIN, order_type = STOP,
                     price = entry, stop_price = Some entry\<rparr> fx of
               (Inl e, fx1) \<Rightarrow> (Some e, ps, fx1)
             | (Inr order_resp, fx1) \<Rightarrow>
                 if resp_status order_resp = ''ok'' then
                   (None,
                    AList.update smb
                      \<lparr>order_id = resp_order_id order_resp, entry_price = entry,
                       stop_loss = sl, target = tgt, status = PENDING_ENTRY,
                       ptype = position_type, sl_order_id = None, target_order_id = None\<rparr> ps,
                    logger (OrderPlaced smb (resp_order_id order_resp)) fx1)
                 else (None, ps, logger (FailedToPlace smb (message order_resp)) fx1))
          else (Some (KeyError exchange_str), ps, fx)
      | _ \<Rightarrow> (Some ValueError, ps, fx))"

subsection \<open>analyze\_and\_trade\<close>

text \<open>
  The strategy's configuration: the symbols it trades, and the part of the analysis
  that the external numeric library computes. \<open>indicators\<close> stands for lines 96 and 97
  (\<open>ta.vwap\<close>, \<open>ta.ema\<close>), which may raise. \<open>long_filter\<close> stands for
  \<open>(close > vwap or close > ema200) and self.is_near_support(df)\<close> on the last candle,
  and \<open>short_filter\<close> for its mirror image; Python evaluates them only after the gap
  test of the last candle has succeeded.
\<close>

record config =
  symbols :: "symbol list"
  indicators :: "candle list \<Rightarrow> exn option"
  long_filter :: "candle list \<Rightarrow> exn + bool"
  short_filter :: "candle list \<Rightarrow> exn + bool"

text \<open>
  \<open>df['low'] > df['high'].shift(2)\<close>: a column of booleans; the first two rows compare
  with a missing value, which is false.
\<close>

definition is_bullish_fvg :: "candle list \<Rightarrow> bool list" where
  "is_bullish_fvg df = map (\<lambda>i. 2 \<le> i \<and> low (df ! i) > high (df ! (i - 2))) [0..<length df]"

definition is_bearish_fvg :: "candle list \<Rightarrow> bool list" where
  "is_bearish_fvg df = map (\<lambda>i. 2 \<le> i \<and> high (df ! i) < low (df ! (i - 2))) [0..<length df]"

definition check_long_entry_conditions ::
  "broker \<Rightarrow> config \<Rightarrow> candle list \<Rightarrow> symbol \<Rightarrow> registry \<Rightarrow> effects
   \<Rightarrow> exn option \<times> registry \<times> effects" where
  "check_long_entry_conditions br cfg df smb ps fx =
     (if length df < 2 then (Some IndexError, ps, fx)
      else
        (let last_candle = last df; second_last_candle = df ! (length df - 2) in
         if last (is_bullish_fvg df) then
           (case long_filter cfg df of
              Inl e \<Rightarrow> (Some e, ps, fx)
            | Inr False \<Rightarrow> (None, ps, fx)
            | Inr True \<Rightarrow>
               (let entry = high last_candle;
                    sl = low second_last_candle;
                    tgt = float_add entry (float_mul 2 (float_sub entry sl))
                in strategy_place_order br smb 1 BUY entry sl tgt LONG ps
                     (logger (LongEntryMet smb entry sl tgt) fx)))
         else (None, ps, fx)))"

definition check_short_entry_conditions ::
  "broker \<Rightarrow> config \<Rightarrow> candle list \<Rightarrow> symbol \<Rightarrow> registry \<Rightarrow> effects
   \<Rightarrow> exn option \<times> registry \<times> effects" where
  "check_short_entry_conditions br cfg df smb ps fx =
     (if length df < 2 then (Some IndexError, ps, fx)
      else
        (let last_candle = last df; second_last_candle = df ! (length df - 2) in
         if last (is_bearish_fvg df) then
           (case short_filter cfg df of
              Inl e \<Rightarrow> (Some e, ps, fx)
            | Inr False \<Rightarrow> (None, ps, fx)
            | Inr True \<Rightarrow>
               (let entry = low last_candle;
                    sl = high second_last_candle;
                    tgt = float_sub entry (float_mul 2 (float_sub sl entry))
                in strategy_place_order br smb 1 SELL entry sl tgt SHORT ps
                     (logger (ShortEntryMet smb entry sl tgt) fx)))
         else (None, ps, fx)))"

text \<open>The body of the \<open>try\<close> block, lines 92 to 101.\<close>

definition analyze_try ::
  "broker \<Rightarrow> config \<Rightarrow> symbol \<Rightarrow> registry \<Rightarrow> effects \<Rightarrow> exn option \<times> registry \<times> effects" where
  "analyze_try br cfg smb ps fx =
     (case call_get_history br smb fx of
        (Inl e, fx1) \<Rightarrow> (Some e, ps, fx1)
      | (Inr df, fx1) \<Rightarrow>
          if df = [] then (None, ps, fx1)
          else
            (case indicators cfg df of
               Some e \<Rightarrow> (Some e, ps, fx1)
             | None \<Rightarrow>
                (case check_long_entry_conditions br cfg df smb ps fx1 of
                   (Some e, ps1, fx2) \<Rightarrow> (Some e, ps1, fx2)
                 | (None, ps1, fx2) \<Rightarrow> check_short_entry_conditions br cfg df smb ps1 fx2)))"

text \<open>
  One iteration of the loop of lines 87 to 104: a symbol that is in the registry is
  skipped; \<open>except Exception\<close> logs the error and goes on to the next symbol.
\<close>

definition analyze_symbol ::
  "broker \<Rightarrow> config \<Rightarrow> symbol \<Rightarrow> registry \<Rightarrow> effects \<Rightarrow> exn option \<times> registry \<times> effects" where
  "analyze_symbol br cfg smb ps fx =
     (if smb \<in> set (map fst ps) then (None, ps, fx)
      else
        (case analyze_try br cfg smb ps fx of
           (Some e, ps1, fx1) \<Rightarrow>
             if is_Exception e then (None, ps1, logger (ErrorProcessing smb e) fx1)
             else (Some e, ps1, fx1)
         | (None, ps1, fx1) \<Rightarrow> (None, ps1, fx1)))"

fun analyze_loop ::
  "broker \<Rightarrow> config \<Rightarrow> symbol list \<Rightarrow> registry \<Rightarrow> effects \<Rightarrow> exn option \<times> registry \<times> effects" where
  "analyze_loop br cfg [] ps fx = (None, ps, fx)"
| "analyze_loop br cfg (smb # rest) ps fx =
     (case analyze_symbol br cfg smb ps fx of
        (Some e, ps1, fx1) \<Rightarrow> (Some e, ps1, fx1)
      | (None, ps1, fx1) \<Rightarrow> analyze_loop br cfg rest ps1 fx1)"

definition analyze_and_trade ::
  "broker \<Rightarrow> config \<Rightarrow> registry \<Rightarrow> effects \<Rightarrow> exn option \<times> registry \<times> effects" where
  "analyze_and_trade br cfg ps fx = analyze_loop br cfg (symbols cfg) ps (logger AnalyzingFVG fx)"

subsection \<open>display\_table\<close>

text \<open>
  For every position the table asks the gateway for a quote and reads
  \<open>symbol.split(':')[1]\<close>; what is printed is not modelled.
\<close>

definition display_row ::
  "broker \<Rightarrow> symbol \<Rightarrow> position \<Rightarrow> effects \<Rightarrow> exn option \<times> position \<times> effects" where
  "display_row br smb pos fx =
     (case call_get_quote br smb fx of
        (Inl e, fx1) \<Rightarrow> (Some e, pos, fx1)
      | (Inr last_price, fx1) \<Rightarrow>
          if length (split_colon smb) < 2 then (Some IndexError, pos, fx1) else (None, pos, fx1))"

definition display_table :: "broker \<Rightarrow> registry \<Rightarrow> effects \<Rightarrow> exn option \<times> registry \<times> effects" where
  "display_table br ps fx = for_items (display_row br) ps fx"

subsection \<open>run\<close>

text \<open>One iteration of the \<open>while True\<close> loop of \<open>run\<close>, lines 31 to 41.\<close>

definition cycle ::
  "broker \<Rightarrow> config \<Rightarrow> registry \<Rightarrow> effects \<Rightarrow> exn option \<times> registry \<times> effects" where
  "cycle br cfg ps fx =
     (case check_open_orders br ps fx of
        (Some e, ps1, fx1) \<Rightarrow> (Some e, ps1, fx1)
      | (None, ps1, fx1) \<Rightarrow>
         (case analyze_and_trade br cfg ps1 fx1 of
            (Some e, ps2, fx2) \<Rightarrow> (Some e, ps2, fx2)
          | (None, ps2, fx2) \<Rightarrow>
             (case manage_positions br ps2 fx2 of
                (Some e, ps3, fx3) \<Rightarrow> (Some e, ps3, fx3)
              | (None, ps3, fx3) \<Rightarrow> display_table br ps3 fx3)))"

text \<open>
  The loop never ends by itself. \<open>run_cycles n\<close> is the strategy after its first \<open>n\<close>
  iterations, or at the exception that left the loop before that: \<open>run\<close> has no
  \<open>try\<close>, so an exception in an iteration ends \<open>run\<close>.
\<close>

fun run_cycles ::
  "broker \<Rightarrow> config \<Rightarrow> nat \<Rightarrow> registry \<Rightarrow> effects \<Rightarrow> exn option \<times> registry \<times> effects" where
  "run_cycles br cfg 0 ps fx = (None, ps, fx)"
| "run_cycles br cfg (Suc n) ps fx =
     (case cycle br cfg ps fx of
        (Some e, ps1, fx1) \<Rightarrow> (Some e, ps1, fx1)
      | (None, ps1, fx1) \<Rightarrow> run_cycles br cfg n ps1 fx1)"

text \<open>\<open>__init__\<close> sets \<open>self.positions = {}\<close>; \<open>run\<close> logs a line and enters the loop.\<close>

definition run :: "broker \<Rightarrow> config \<Rightarrow> nat \<Rightarrow> exn option \<times> registry \<times> effects" where
  "run br cfg n = run_cycles br cfg n [] (logger RunningFVG no_effects)"

section \<open>strategy\_manager.py: run\_strategy\<close>

text \<open>
  What arrives from the gateway's tick callback: a dictionary (its keys and values) or
  a list.
\<close>

datatype pyval = PyDict "(string \<times> string) list" | PyList "pyval list"

fun has_key :: "string \<Rightarrow> pyval \<Rightarrow> bool" where
  "has_key k (PyDict kvs) = (k \<in> set (map fst kvs))"
| "has_key k (PyList xs) = False"



text \<open>
  The consumer loop, lines 67 to 80. \<open>handled\<close> lists the values passed to
  \<open>strategy.on_ticks_update\<close>, \<open>loop_errors\<close> the exceptions reported on the log queue.
  The strategy is a parameter: given what it was handed before and the new value, it
  returns or raises.
\<close>

record loop_state =
  handled :: "pyval list"
  loop_errors :: "exn list"

definition loop_init :: loop_state where
  "loop_init = \<lparr>handled = [], loop_errors = []\<rparr>"

definition loop_body :: "(pyval list \<Rightarrow> pyval \<Rightarrow> exn option) \<Rightarrow> pyval \<Rightarrow> loop_state \<Rightarrow> exn option \<times> loop_state" where
  "loop_body on_ticks_update tick_data st =
     (case (case tick_data of
              PyList xs \<Rightarrow> (case xs of [] \<Rightarrow> Inl IndexError | x # _ \<Rightarrow> Inr x)
            | PyDict kvs \<Rightarrow> Inr tick_data) of
        Inl e \<Rightarrow> (Some e, st)
      | Inr symbol_data \<Rightarrow>
          if has_key ''last_price'' symbol_data \<or> has_key ''ltp'' symbol_data
          then (on_ticks_update (handled st) symbol_data,
                st\<lparr>handled := handled st @ [symbol_data]\<rparr>)
          else (None, st))"

text \<open>
  How the loop stands after the values that the queue delivered: still waiting in
  \<open>get()\<close>, left by \<open>break\<close>, or left by an exception that no clause caught.
\<close>

datatype loop_end = Waiting | Broke | Raised exn

fun strategy_loop ::
  "(pyval list \<Rightarrow> pyval \<Rightarrow> exn option) \<Rightarrow> pyval list \<Rightarrow> loop_state \<Rightarrow> loop_end \<times> loop_state" where
  "strategy_loop on_ticks_update [] st = (Waiting, st)"
| "strategy_loop on_ticks_update (tick_data # q) st =
     (case loop_body on_ticks_update tick_data st of
        (None, st1) \<Rightarrow> strategy_loop on_ticks_update q st1
      | (Some e, st1) \<Rightarrow>
          if e = KeyboardInterrupt then (Broke, st1)
          else if is_Exception e
          then strategy_loop on_ticks_update q (st1\<lparr>loop_errors := loop_errors st1 @ [e]\<rparr>)
          else (Raised e, st1))"

section \<open>Predicates and sample objects\<close>

text \<open>Every child process that is alive is the one \<open>self.process\<close> refers to.\<close>

definition manager_inv :: "manager \<Rightarrow> bool" where
  "manager_inv m = (alive m \<subseteq> set_option (process m))"

text \<open>A disk where every configuration file loads, and a system that can spawn.\<close>

definition env_ok :: start_env where
  "env_ok = \<lparr>config_of = (\<lambda>name. Loaded), spawn_raises = None\<rparr>"

text \<open>
  A sample gateway: the order statuses and the last price are given (both may depend on
  the calls made so far), every placement is acknowledged, with the identifier \<open>SL2\<close>
  for a stop order and \<open>TG2\<close> for a limit order, and nothing raises.
\<close>

definition demo_broker :: "(call list \<Rightarrow> order_id \<Rightarrow> string) \<Rightarrow> (call list \<Rightarrow> real) \<Rightarrow> broker" where
  "demo_broker status_of last_price =
     \<lparr>get_order_status = (\<lambda>h oid. Inr (status_of h oid)),
      place_order = (\<lambda>h req. Inr \<lparr>resp_status = ''ok'',
                                   resp_order_id = (if order_type req = STOP then ''SL2'' else ''TG2''),
                                   message = []\<rparr>),
      cancel_order = (\<lambda>h oid. None),
      get_quote = (\<lambda>h smb. Inr (last_price h)),
      get_history = (\<lambda>h smb. Inr []),
      exchanges = [''NSE'']\<rparr>"

text \<open>The position of the spec's scenario: long, entry 100, target 110, stop 95, open.\<close>

definition long_pos :: position where
  "long_pos = \<lparr>order_id = ''E1'', entry_price = 100, stop_loss = 95, target = 110,
               status = OPEN, ptype = LONG,
               sl_order_id = Some ''SL1'', target_order_id = Some ''TG1''\<rparr>"

fun is_PlaceOrder :: "call \<Rightarrow> bool" where
  "is_PlaceOrder (PlaceOrder req) = True"
| "is_PlaceOrder _ = False"

text \<open>
  A step from \<open>(pos, fx)\<close> to \<open>(pos', fx')\<close> that only adds to the trace and to the log,
  places no order, does not report a move of the stop, and leaves the prices of the
  position alone.
\<close>

definition quiet_step :: "symbol \<Rightarrow> position \<Rightarrow> effects \<Rightarrow> position \<Rightarrow> effects \<Rightarrow> bool" where
  "quiet_step smb pos fx pos' fx' =
     (\<exists>tr lg. trace fx' = trace fx @ tr \<and> log fx' = log fx @ lg
        \<and> filter is_PlaceOrder tr = [] \<and> MovedSLToBreakeven smb \<notin> set lg
        \<and> stop_loss pos' = stop_loss pos \<and> target pos' = target pos
        \<and> entry_price pos' = entry_price pos)"

text \<open>The position after both exit orders were answered with \<open>r1\<close> and \<open>r2\<close>.\<close>

definition set_exit_ids :: "order_response \<Rightarrow> order_response \<Rightarrow> position \<Rightarrow> position" where
  "set_exit_ids r1 r2 pos =
     (let pos1 = (if resp_status r1 = ''ok'' then pos\<lparr>sl_order_id := Some (resp_order_id r1)\<rparr> else pos)
      in if resp_status r2 = ''ok'' then pos1\<lparr>target_order_id := Some (resp_order_id r2)\<rparr> else pos1)"

text \<open>The calls made, and the lines logged, between two states of the effects.\<close>

definition new_calls :: "effects \<Rightarrow> effects \<Rightarrow> call list" where
  "new_calls fx fx' = drop (length (trace fx)) (trace fx')"


text \<open>The same position before its entry order is filled.\<close>

definition pending_pos :: position where
  "pending_pos = long_pos\<lparr>status := PENDING_ENTRY, sl_order_id := None, target_order_id := None\<rparr>"

text \<open>A gateway that reports every order filled and raises on every placement.\<close>

definition failing_broker :: broker where
  "failing_broker =
     (demo_broker (\<lambda>h oid. ''FILLED'') (\<lambda>h. 104))
       \<lparr>place_order := (\<lambda>h req. Inl (BrokerError ''gateway down''))\<rparr>"


text \<open>The quote, the status polls and the cancellations of a gateway never raise.\<close>

definition polls_return :: "broker \<Rightarrow> bool" where
  "polls_return br =
     ((\<forall>h smb. \<exists>p. get_quote br h smb = Inr p)
      \<and> (\<forall>h oid. \<exists>st. get_order_status br h oid = Inr st)
      \<and> (\<forall>h oid. cancel_order br h oid = None))"

text \<open>A gateway that answers every placement with a rejection, and reports no fill.\<close>

definition rejecting_broker :: broker where
  "rejecting_broker =
     (demo_broker (\<lambda>h oid. if oid = ''E1'' then ''FILLED'' else ''OPEN'') (\<lambda>h. 104))
       \<lparr>place_order := (\<lambda>h req. Inr \<lparr>resp_status = ''error'', resp_order_id = [],
                                       message = ''rejected''\<rparr>)\<rparr>"

text \<open>A configuration with one symbol whose analysis library accepts every candle list.\<close>

definition demo_config :: config where
  "demo_config = \<lparr>symbols = [''NSE:ACME''], indicators = (\<lambda>df. None),
                  long_filter = (\<lambda>df. Inr True), short_filter = (\<lambda>df. Inr True)\<rparr>"

text \<open>The strategy's callback raises nothing but exceptions of class \<open>Exception\<close>.\<close>

definition only_Exceptions :: "(pyval list \<Rightarrow> pyval \<Rightarrow> exn option) \<Rightarrow> bool" where
  "only_Exceptions on_ticks_update = (\<forall>h v e. on_ticks_update h v = Some e \<longrightarrow> is_Exception e)"

text \<open>A value that the consumer loop hands to the strategy: it carries a price.\<close>

definition has_price :: "pyval \<Rightarrow> bool" where
  "has_price v = (has_key ''last_price'' v \<or> has_key ''ltp'' v)"


text \<open>
  Two ticks and, between them, an order update: the spec's \<open>OrderUpdateEvent\<close>, which
  has an order identifier and a payload and no price.
\<close>

definition tick_A :: pyval where
  "tick_A = PyDict [(''symbol'', ''NSE:ACME''), (''last_price'', ''101'')]"


definition tick_C :: pyval where
  "tick_C = PyDict [(''symbol'', ''NSE:ACME''), (''ltp'', ''103'')]"

text \<open>A strategy whose callback raises on the first value it is handed, and only then.\<close>

definition first_raises :: "pyval list \<Rightarrow> pyval \<Rightarrow> exn option" where
  "first_raises h v = (if h = [] then Some ValueError else None)"

text \<open>A gateway whose status poll raises.\<close>

definition timeout_broker :: broker where
  "timeout_broker =
     (demo_broker (\<lambda>h oid. ''OPEN'') (\<lambda>h. 104))
       \<lparr>get_order_status := (\<lambda>h oid. Inl (BrokerError ''timeout''))\<rparr>"

text \<open>
  How often the log reports \<open>Moved SL to breakeven for <symbol>\<close>: line 187 (and 195)
  writes it once for every completed adjustment.
\<close>

definition breakevens :: "symbol \<Rightarrow> effects \<Rightarrow> nat" where
  "breakevens smb fx = length (filter (\<lambda>m. m = MovedSLToBreakeven smb) (log fx))"

text \<open>
  The adjustments a registry can still make for a symbol: one for every entry of the
  symbol whose stop is not at its entry price, and one when the symbol has no entry yet.
\<close>

definition armed :: "symbol \<Rightarrow> symbol \<Rightarrow> position \<Rightarrow> nat" where
  "armed smb s p = (if s = smb \<and> stop_loss p \<noteq> entry_price p then 1 else 0)"

definition armed_sum :: "symbol \<Rightarrow> registry \<Rightarrow> nat" where
  "armed_sum smb ps = sum_list (map (\<lambda>(s, p). armed smb s p) ps)"

definition budget :: "symbol \<Rightarrow> registry \<Rightarrow> nat" where
  "budget smb ps = (if smb \<in> set (map fst ps) then armed_sum smb ps else 1)"

text \<open>
  A gateway that fills the entry order, leaves the exit orders open, and quotes 106
  until two quotes were asked, then 103, then 107.
\<close>

definition moving_broker :: broker where
  "moving_broker =
     demo_broker (\<lambda>h oid. if oid = ''E1'' then ''FILLED'' else ''OPEN'')
       (\<lambda>h. if length (filter (\<lambda>c. c = GetQuote ''NSE:ACME'') h) < 2 then 106
            else if length (filter (\<lambda>c. c = GetQuote ''NSE:ACME'') h) < 4 then 103 else 107)"

text \<open>A gateway whose quote raises, and one whose history request raises.\<close>

definition quote_down_broker :: broker where
  "quote_down_broker =
     (demo_broker (\<lambda>h oid. ''OPEN'') (\<lambda>h. 104))
       \<lparr>get_quote := (\<lambda>h smb. Inl (BrokerError ''no quote''))\<rparr>"

definition history_down_broker :: broker where
  "history_down_broker =
     (demo_broker (\<lambda>h oid. ''OPEN'') (\<lambda>h. 104))
       \<lparr>get_history := (\<lambda>h smb. Inl (BrokerError ''no history''))\<rparr>"

text \<open>\<open>':'.join(parts)\<close>, the inverse of \<open>split(':')\<close>.\<close>

fun join_colon :: "string list \<Rightarrow> string" where
  "join_colon [] = []"
| "join_colon [w] = w"
| "join_colon (w # ws) = w @ CHR '':'' # join_colon ws"

text \<open>
  The placements made for a symbol: the requests that name its exchange and its name.
  Every placement of the strategy for a key that \<open>_place_order\<close> has put into the registry
  is of this kind.
\<close>

fun order_for :: "symbol \<Rightarrow> call \<Rightarrow> bool" where
  "order_for smb (PlaceOrder req) = (split_colon smb = [exchange req, symbol req])"
| "order_for smb _ = False"

definition placements :: "symbol \<Rightarrow> effects \<Rightarrow> call list" where
  "placements smb fx = filter (order_for smb) (trace fx)"

text \<open>
  An entry \<open>(s, p)\<close> of the registry as \<open>_place_order\<close> makes its keys (an exchange and a
  name, line 147); and, when it is the entry of \<open>smb\<close>, past its adjustment: filled, with
  the stop at the entry price.
\<close>

definition entry_ok :: "symbol \<Rightarrow> symbol \<Rightarrow> position \<Rightarrow> bool" where
  "entry_ok smb s p =
     (length (split_colon s) = 2
      \<and> (s = smb \<longrightarrow> stop_loss p = entry_price p \<and> status p \<noteq> PENDING_ENTRY))"

text \<open>
  A registry in which \<open>smb\<close> has its position, past its adjustment. The weaker
  \<open>closed_for\<close> also admits a symbol that \<open>_place_order\<close> refuses, which never gets a
  position; it is the form in which the property is carried through the cycle.
\<close>

definition settled :: "symbol \<Rightarrow> registry \<Rightarrow> bool" where
  "settled smb ps = (smb \<in> set (map fst ps) \<and> (\<forall>(s, p)\<in>set ps. entry_ok smb s p))"

definition closed_for :: "symbol \<Rightarrow> registry \<Rightarrow> bool" where
  "closed_for smb ps =
     ((smb \<in> set (map fst ps) \<or> length (split_colon smb) \<noteq> 2)
      \<and> (\<forall>(s, p)\<in>set ps. entry_ok smb s p))"

definition two_part_keys :: "registry \<Rightarrow> bool" where
  "two_part_keys ps = (\<forall>(s, p)\<in>set ps. length (split_colon s) = 2)"

text \<open>The position of the spec's scenario after its adjustment.\<close>

definition settled_pos :: position where
  "settled_pos = long_pos\<lparr>stop_loss := 100, sl_order_id := Some ''SL2'',
                           target_order_id := Some ''TG2''\<rparr>"


fun is_position_created :: "symbol \<Rightarrow> log_msg \<Rightarrow> bool" where
  "is_position_created smb (OrderPlaced s oid) = (s = smb)"
| "is_position_created smb _ = False"


definition positions_created :: "symbol \<Rightarrow> effects \<Rightarrow> nat" where
  "positions_created smb fx = length (filter (is_position_created smb) (log fx))"


text \<open>
  What \<open>_place_order\<close> stores of a position and nothing changes afterwards: the entry
  order, the entry price, the target and the side. The status, the stop and the
  identifiers of the exit orders change over the life of the position.
\<close>

definition same_position :: "position \<Rightarrow> position \<Rightarrow> bool" where
  "same_position p p' =
     (order_id p' = order_id p \<and> entry_price p' = entry_price p \<and> target p' = target p
      \<and> ptype p' = ptype p)"

definition same_entry :: "symbol \<times> position \<Rightarrow> symbol \<times> position \<Rightarrow> bool" where
  "same_entry a b = (fst b = fst a \<and> same_position (snd a) (snd b))"

text \<open>
  Every entry of \<open>ps\<close> is in \<open>ps'\<close>, at its place, under its key and with the same position:
  nothing was removed and nothing was replaced.
\<close>

definition kept :: "registry \<Rightarrow> registry \<Rightarrow> bool" where
  "kept ps ps' = (length ps \<le> length ps' \<and> list_all2 same_entry ps (take (length ps) ps'))"


text \<open>
  Three candles with a bullish gap (the low of the last one is above the high of the
  first one), and a gateway that returns them as the history of every symbol, fills the
  entry order at once and acknowledges every placement: the first one with the
  identifier \<open>E1\<close>, the later ones with \<open>SL2\<close> or \<open>TG2\<close>.
\<close>

definition gap_candles :: "candle list" where
  "gap_candles = [\<lparr>high = 100, low = 98, close = 99, volume = 10\<rparr>,
                  \<lparr>high = 103, low = 99, close = 102, volume = 10\<rparr>,
                  \<lparr>high = 106, low = 101, close = 105, volume = 10\<rparr>]"

definition trading_broker :: broker where
  "trading_broker =
     (demo_broker (\<lambda>h oid. if oid = ''E1'' then ''FILLED'' else ''OPEN'') (\<lambda>h. 104))
       \<lparr>place_order := (\<lambda>h req. Inr \<lparr>resp_status = ''ok'',
            resp_order_id = (if filter is_PlaceOrder h = [] then ''E1''
                             else if order_type req = STOP then ''SL2'' else ''TG2''),
            message = []\<rparr>),
        get_history := (\<lambda>h smb. Inr gap_candles)\<rparr>"

text \<open>
  Candles that are no price data: the last one has its high below its low, so that it
  lies above the first candle by its low and below it by its high.
\<close>

definition crossed_candles :: "candle list" where
  "crossed_candles = [\<lparr>high = 100, low = 98, close = 99, volume = 10\<rparr>,
                      \<lparr>high = 103, low = 99, close = 102, volume = 10\<rparr>,
                      \<lparr>high = 97, low = 101, close = 99, volume = 10\<rparr>]"

section \<open>Properties of StrategyManager\<close>

lemma get_logs_loop_eq: "get_logs_loop logs q = (logs @ q, [])"
  by (induction q arbitrary: logs) simp_all

lemma get_logs_eq: "get_logs m = (log_queue m, m\<lparr>log_queue := []\<rparr>)"
  by (simp add: get_logs_def get_logs_loop_eq)

lemma manager_drained_all:
  "concat (manager_drained ops m) @ log_queue (manager_run ops m) = log_queue m @ manager_puts ops"
proof (induction ops arbitrary: m)
  case Nil
  show ?case by simp
next
  case (Cons a ops)
  show ?case
  proof (cases a)
    case (Start env name)
    have "log_queue (snd (start env name m)) = log_queue m"
      by (simp add: start_def Let_def split: config_file.splits option.splits)
    with Cons Start show ?thesis by simp
  next
    case Stop
    have "log_queue (snd (stop m)) = log_queue m"
      by (simp add: stop_def)
    with Cons Stop show ?thesis by simp
  next
    case GetLogs
    with Cons show ?thesis by (simp add: get_logs_eq)
  next
    case (ChildPuts msg)
    with Cons show ?thesis by simp
  next
    case ChildExits
    with Cons show ?thesis by simp
  qed
qed

text \<open>
  Claim C8. \<open>get_logs\<close> drains the buffer: over any run of the manager, the lines
  returned by the successive \<open>get_logs\<close> calls, followed by what is still buffered, are
  exactly the lines that were buffered at the start followed by the lines put during the
  run, each once and in order; and on any buffer, \<open>get_logs\<close> returns the whole buffer, and
  a second call right after it returns the empty list.
\<close>

theorem get_logs_drains:
  "concat (manager_drained ops m) @ log_queue (manager_run ops m) = log_queue m @ manager_puts ops
   \<and> fst (get_logs m) = log_queue m
   \<and> fst (get_logs (snd (get_logs m))) = []"
  by (simp add: manager_drained_all get_logs_eq)

lemma manager_inv_init: "manager_inv manager_init"
  by (simp add: manager_inv_def manager_init_def)

lemma manager_inv_dead: "manager_inv m \<Longrightarrow> \<not> process_is_alive m \<Longrightarrow> alive m = {}"
  by (cases "process m") (auto simp: manager_inv_def process_is_alive_def)

lemma manager_inv_start: "manager_inv m \<Longrightarrow> manager_inv (snd (start env name m))"
proof (cases "process_is_alive m")
  case True
  assume "manager_inv m"
  with True show ?thesis by (simp add: start_def)
next
  case False
  assume "manager_inv m"
  with False have "alive m = {}" by (rule manager_inv_dead[rotated])
  with False show ?thesis
    by (simp add: start_def manager_inv_def Let_def split: config_file.splits option.splits)
qed

lemma manager_inv_step: "manager_inv m \<Longrightarrow> manager_inv (manager_step a m)"
proof (cases a)
  case (Start env name)
  assume "manager_inv m"
  with Start show ?thesis by (simp add: manager_inv_start)
next
  case Stop
  assume "manager_inv m"
  with Stop show ?thesis by (auto simp: stop_def manager_inv_def)
next
  case GetLogs
  assume "manager_inv m"
  with GetLogs show ?thesis by (simp add: get_logs_eq manager_inv_def)
next
  case (ChildPuts msg)
  assume "manager_inv m"
  with ChildPuts show ?thesis by (simp add: manager_inv_def)
next
  case ChildExits
  assume "manager_inv m"
  with ChildExits show ?thesis by (auto simp: manager_inv_def)
qed

lemma manager_inv_run: "manager_inv m \<Longrightarrow> manager_inv (manager_run ops m)"
  by (induction ops arbitrary: m) (simp_all add: manager_inv_step)

lemma manager_inv_card: "manager_inv m \<Longrightarrow> card (alive m) \<le> 1"
proof -
  assume "manager_inv m"
  then have sub: "alive m \<subseteq> set_option (process m)" by (simp add: manager_inv_def)
  have "card (set_option (process m)) \<le> 1" by (cases "process m") simp_all
  moreover have "card (alive m) \<le> card (set_option (process m))"
    using sub by (intro card_mono) simp_all
  ultimately show ?thesis by linarith
qed

text \<open>
  Claim C7. After any sequence of \<open>start\<close> and \<open>stop\<close> calls on a fresh manager
  (interleaved with \<open>get_logs\<close> calls, log lines and the child ending by itself), at most
  one child process is alive; and \<open>start\<close> called while the process is alive returns
  "Strategy is already running." and leaves the manager and the set of processes as they
  were: no process is created.
\<close>

theorem start_stop_single_process:
  "card (alive (manager_run ops manager_init)) \<le> 1
   \<and> (process_is_alive (manager_run ops manager_init) \<longrightarrow>
        start env name (manager_run ops manager_init)
          = (Inr ''Strategy is already running.'', manager_run ops manager_init))"
proof
  show "card (alive (manager_run ops manager_init)) \<le> 1"
    by (intro manager_inv_card manager_inv_run manager_inv_init)
next
  show "process_is_alive (manager_run ops manager_init) \<longrightarrow>
        start env name (manager_run ops manager_init)
          = (Inr ''Strategy is already running.'', manager_run ops manager_init)"
    by (simp add: start_def)
qed

theorem start_stop_single_process_witness:
  "process_is_alive (manager_run [Start env_ok ''fvg'', Stop, Start env_ok ''fvg''] manager_init)
   \<and> card (alive (manager_run [Start env_ok ''fvg'', Stop, Start env_ok ''fvg''] manager_init)) \<le> 1
   \<and> created (snd (start env_ok ''oi_tracker''
        (manager_run [Start env_ok ''fvg'', Stop, Start env_ok ''fvg''] manager_init))) = [0, 1]
   \<and> fst (start env_ok ''oi_tracker''
        (manager_run [Start env_ok ''fvg'', Stop, Start env_ok ''fvg''] manager_init))
       = Inr ''Strategy is already running.''"
proof -
  have run: "manager_run [Start env_ok ''fvg'', Stop, Start env_ok ''fvg''] manager_init
             = \<lparr>process = Some 1, log_queue = [], alive = {1}, created = [0, 1]\<rparr>"
    by (simp add: start_def stop_def process_is_alive_def manager_init_def env_ok_def Let_def)
  have live: "process_is_alive (manager_run [Start env_ok ''fvg'', Stop, Start env_ok ''fvg''] manager_init)"
    unfolding run by (simp add: process_is_alive_def)
  from start_stop_single_process
         [of "[Start env_ok ''fvg'', Stop, Start env_ok ''fvg'']" env_ok "''oi_tracker''"] live
  show ?thesis unfolding run by simp
qed

section \<open>Properties of FVGStrategy: one position\<close>

lemmas call_defs = call_get_order_status_def call_place_order_def call_cancel_order_def
  call_get_quote_def call_get_history_def

lemmas float_defs = float_add_def float_sub_def float_mul_def float_div_def

lemma round_even_int [simp]: "round_even (of_int m) = m"
  by (simp add: round_even_def)

lemma round_double_of_int:
  assumes "\<bar>n\<bar> < 2 ^ 53"
  shows "round_double (of_int n) = of_int n"
proof (cases "n = 0")
  case True
  then show ?thesis by (simp add: round_double_def)
next
  case False
  then have pos: "0 < \<bar>n\<bar>" by simp
  have fl: "\<lfloor>\<bar>of_int n :: real\<bar>\<rfloor> = \<bar>n\<bar>"
    by (metis floor_of_int of_int_abs)
  from pos have "1 \<le> \<bar>n\<bar>" by linarith
  then have "(1::real) \<le> of_int \<bar>n\<bar>" by (simp only: of_int_1_le_iff)
  then have ge: "1 \<le> \<bar>of_int n :: real\<bar>" by (simp only: of_int_abs)
  then have b: "binade (of_int n) = bitlen \<bar>n\<bar> - 1"
    by (simp only: binade_def fl if_True)
  from bitlen_bounds[OF pos] have "2 ^ nat (bitlen \<bar>n\<bar> - 1) \<le> \<bar>n\<bar>" by simp
  with assms have lt: "(2::int) ^ nat (bitlen \<bar>n\<bar> - 1) < 2 ^ 53" by linarith
  have "nat (bitlen \<bar>n\<bar> - 1) < 53"
  proof (rule ccontr)
    assume "\<not> nat (bitlen \<bar>n\<bar> - 1) < 53"
    then have "53 \<le> nat (bitlen \<bar>n\<bar> - 1)" by linarith
    then have "(2::int) ^ 53 \<le> 2 ^ nat (bitlen \<bar>n\<bar> - 1)"
      by (intro power_increasing) simp_all
    with lt show False by linarith
  qed
  then have le: "binade (of_int n) \<le> 52" using b by linarith
  let ?k = "nat (52 - binade (of_int n :: real))"
  have "(of_int n :: real) * 2 ^ ?k = of_int (n * 2 ^ ?k)" by simp
  then have "round_even (of_int n * 2 ^ ?k) = n * 2 ^ ?k" by (simp only: round_even_int)
  with le False show ?thesis by (simp add: round_double_def)
qed

text \<open>An integer below \<open>2 ^ 53\<close> in absolute value is a double: rounding leaves it.\<close>

lemma round_double_Ints:
  "x \<in> \<int> \<Longrightarrow> \<bar>x\<bar> < 9007199254740992 \<Longrightarrow> round_double x = x"
proof -
  assume "x \<in> \<int>" and b: "\<bar>x\<bar> < 9007199254740992"
  then obtain n where x: "x = of_int n" by (auto elim: Ints_cases)
  with b have "\<bar>of_int n :: real\<bar> < of_int (2 ^ 53)" by simp
  then have "\<bar>n\<bar> < 2 ^ 53" by (metis of_int_abs of_int_less_iff)
  with x show ?thesis by (simp add: round_double_of_int)
qed

lemma check_sl_quiet:
  "check_sl br smb pos fx = (r, pos', fx') \<Longrightarrow> quiet_step smb pos fx pos' fx'"
  by (auto simp: check_sl_def quiet_step_def call_defs logger_def
           split: option.splits sum.splits if_splits prod.splits)

lemma check_target_quiet:
  "check_target br smb pos fx = (r, pos', fx') \<Longrightarrow> quiet_step smb pos fx pos' fx'"
  by (auto simp: check_target_def quiet_step_def call_defs logger_def
           split: option.splits sum.splits if_splits prod.splits)

lemma quiet_step_trans:
  "quiet_step smb pos fx pos1 fx1 \<Longrightarrow> quiet_step smb pos1 fx1 pos2 fx2
   \<Longrightarrow> quiet_step smb pos fx pos2 fx2"
  unfolding quiet_step_def
  by (elim exE conjE) (rule_tac x="tr @ tra" in exI, rule_tac x="lg @ lga" in exI, auto)

lemma reconcile_quiet:
  "reconcile br smb pos fx = (r, pos', fx') \<Longrightarrow> quiet_step smb pos fx pos' fx'"
  unfolding reconcile_def
  by (auto split: prod.splits option.splits dest!: check_sl_quiet check_target_quiet
           intro: quiet_step_trans)

lemma place_exit_orders_ok:
  assumes "symbol_exchange br smb = Inr ne"
      and "place_order br (trace fx) (sl_req ne pos) = Inr r1"
      and "place_order br (trace fx @ [PlaceOrder (sl_req ne pos)]) (tgt_req ne pos) = Inr r2"
  shows "place_exit_orders br smb pos fx
         = (None, set_exit_ids r1 r2 pos,
            fx\<lparr>trace := trace fx @ [PlaceOrder (sl_req ne pos), PlaceOrder (tgt_req ne pos)]\<rparr>)"
  using assms
  by (simp add: place_exit_orders_def call_place_order_def set_exit_ids_def Let_def tgt_req_def)

lemma set_exit_ids_fields [simp]:
  "status (set_exit_ids r1 r2 pos) = status pos"
  "stop_loss (set_exit_ids r1 r2 pos) = stop_loss pos"
  "target (set_exit_ids r1 r2 pos) = target pos"
  "entry_price (set_exit_ids r1 r2 pos) = entry_price pos"
  "ptype (set_exit_ids r1 r2 pos) = ptype pos"
  "order_id (set_exit_ids r1 r2 pos) = order_id pos"
  by (simp_all add: set_exit_ids_def Let_def)

lemma req_update [simp]:
  "sl_req ne (pos\<lparr>status := st\<rparr>) = sl_req ne pos"
  "tgt_req ne (pos\<lparr>status := st\<rparr>) = tgt_req ne pos"
  "tgt_req ne (pos\<lparr>stop_loss := x\<rparr>) = tgt_req ne pos"
  by (simp_all add: sl_req_def tgt_req_def)

lemma split_acme: "split_colon ''NSE:ACME'' = [''NSE'', ''ACME'']"
  by simp

text \<open>
  Claim C1, at the input where the code departs from it. An open position whose stop
  order and target order are both reported \<open>FILLED\<close> in the same cycle: the first check
  of lines 197 to 201 sets the status to \<open>CLOSED_SL\<close>, and the second check of lines 203
  to 207, which runs whatever the first one did, sets it to \<open>CLOSED_TARGET\<close>.
\<close>

theorem closed_sl_overwritten_by_closed_target:
  "check_sl (demo_broker (\<lambda>h oid. ''FILLED'') (\<lambda>h. 104)) ''NSE:ACME'' long_pos
      \<lparr>trace = [GetQuote ''NSE:ACME''], log = []\<rparr>
   = (None, long_pos\<lparr>status := CLOSED_SL\<rparr>,
      \<lparr>trace = [GetQuote ''NSE:ACME'', GetOrderStatus ''SL1'', CancelOrder ''TG1''],
       log = [SLHit ''NSE:ACME'']\<rparr>)
   \<and> manage_positions (demo_broker (\<lambda>h oid. ''FILLED'') (\<lambda>h. 104))
        [(''NSE:ACME'', long_pos)] no_effects
   = (None, [(''NSE:ACME'', long_pos\<lparr>status := CLOSED_TARGET\<rparr>)],
      \<lparr>trace = [GetQuote ''NSE:ACME'', GetOrderStatus ''SL1'', CancelOrder ''TG1'',
                GetOrderStatus ''TG1'', CancelOrder ''SL1''],
       log = [SLHit ''NSE:ACME'', TargetHit ''NSE:ACME'']\<rparr>)"
  by (simp add: manage_positions_def manage_position_def reconcile_def check_sl_def
        check_target_def breakeven_due_def float_defs round_double_Ints call_defs demo_broker_def long_pos_def
        no_effects_def logger_def)

text \<open>
  Claim C3, as amended. For a position in state \<open>PENDING_ENTRY\<close> whose entry order is
  observed \<open>FILLED\<close> (and whose symbol names an exchange), the controller first sets the
  state to \<open>OPEN\<close> and then places one stop order at \<open>stop_loss\<close> and one limit order at
  \<open>target\<close>, in that order: when the first placement raises, the position is left \<open>OPEN\<close>
  with that single call made; when the stop order is placed and the placement of the limit
  order raises, the position is left \<open>OPEN\<close> (with the stop order's identifier, if it
  was acknowledged) and the calls are the status poll and the two placements; when both
  placements return, the calls of the step are the status poll, the stop order and the
  limit order, and the position is \<open>OPEN\<close>. In every case the position is \<open>OPEN\<close>
  afterwards, and no case places a second stop order or a second limit order.
\<close>

theorem entry_filled_opens_then_places:
  assumes pend: "status pos = PENDING_ENTRY"
      and fill: "get_order_status br (trace fx) (order_id pos) = Inr ''FILLED''"
      and smb: "symbol_exchange br smb = Inr ne"
  shows "(\<forall>e. place_order br (trace fx @ [GetOrderStatus (order_id pos)]) (sl_req ne pos) = Inl e \<longrightarrow>
            check_open_order br smb pos fx
            = (Some e, pos\<lparr>status := OPEN\<rparr>,
               fx\<lparr>trace := trace fx @ [GetOrderStatus (order_id pos), PlaceOrder (sl_req ne pos)]\<rparr>))
       \<and> (\<forall>r1 e.
            place_order br (trace fx @ [GetOrderStatus (order_id pos)]) (sl_req ne pos) = Inr r1 \<and>
            place_order br (trace fx @ [GetOrderStatus (order_id pos), PlaceOrder (sl_req ne pos)])
              (tgt_req ne pos) = Inl e \<longrightarrow>
            check_open_order br smb pos fx
            = (Some e,
               (if resp_status r1 = ''ok''
                then pos\<lparr>status := OPEN, sl_order_id := Some (resp_order_id r1)\<rparr>
                else pos\<lparr>status := OPEN\<rparr>),
               fx\<lparr>trace := trace fx @ [GetOrderStatus (order_id pos), PlaceOrder (sl_req ne pos),
                                        PlaceOrder (tgt_req ne pos)]\<rparr>))
       \<and> (\<forall>r1 r2.
            place_order br (trace fx @ [GetOrderStatus (order_id pos)]) (sl_req ne pos) = Inr r1 \<and>
            place_order br (trace fx @ [GetOrderStatus (order_id pos), PlaceOrder (sl_req ne pos)])
              (tgt_req ne pos) = Inr r2 \<longrightarrow>
            check_open_order br smb pos fx
            = (None, set_exit_ids r1 r2 (pos\<lparr>status := OPEN\<rparr>),
               fx\<lparr>trace := trace fx @ [GetOrderStatus (order_id pos), PlaceOrder (sl_req ne pos),
                                        PlaceOrder (tgt_req ne pos)]\<rparr>))
       \<and> status (fst (snd (check_open_order br smb pos fx))) = OPEN
       \<and> order_type (sl_req ne pos) = STOP \<and> price (sl_req ne pos) = stop_loss pos
       \<and> order_type (tgt_req ne pos) = LIMIT \<and> price (tgt_req ne pos) = target pos"
proof (intro conjI allI impI)
  fix e
  assume "place_order br (trace fx @ [GetOrderStatus (order_id pos)]) (sl_req ne pos) = Inl e"
  with pend fill smb
  show "check_open_order br smb pos fx
        = (Some e, pos\<lparr>status := OPEN\<rparr>,
           fx\<lparr>trace := trace fx @ [GetOrderStatus (order_id pos), PlaceOrder (sl_req ne pos)]\<rparr>)"
    by (simp add: check_open_order_def call_get_order_status_def place_exit_orders_def
                  call_place_order_def)
next
  fix r1 e
  assume "place_order br (trace fx @ [GetOrderStatus (order_id pos)]) (sl_req ne pos) = Inr r1 \<and>
            place_order br (trace fx @ [GetOrderStatus (order_id pos), PlaceOrder (sl_req ne pos)])
              (tgt_req ne pos) = Inl e"
  with pend fill smb
  show "check_open_order br smb pos fx
        = (Some e,
           (if resp_status r1 = ''ok''
            then pos\<lparr>status := OPEN, sl_order_id := Some (resp_order_id r1)\<rparr>
            else pos\<lparr>status := OPEN\<rparr>),
           fx\<lparr>trace := trace fx @ [GetOrderStatus (order_id pos), PlaceOrder (sl_req ne pos),
                                    PlaceOrder (tgt_req ne pos)]\<rparr>)"
    by (simp add: check_open_order_def call_get_order_status_def place_exit_orders_def
                  call_place_order_def Let_def tgt_req_def)
next
  have "status (fst (snd (place_exit_orders br smb p f))) = status p" for p f
    by (auto simp: place_exit_orders_def call_place_order_def Let_def
             split: sum.splits prod.splits)
  with pend fill show "status (fst (snd (check_open_order br smb pos fx))) = OPEN"
    by (simp add: check_open_order_def call_get_order_status_def)
next
  fix r1 r2
  assume a: "place_order br (trace fx @ [GetOrderStatus (order_id pos)]) (sl_req ne pos) = Inr r1 \<and>
            place_order br (trace fx @ [GetOrderStatus (order_id pos), PlaceOrder (sl_req ne pos)])
              (tgt_req ne pos) = Inr r2"
  let ?fx1 = "fx\<lparr>trace := trace fx @ [GetOrderStatus (order_id pos)]\<rparr>"
  have "place_exit_orders br smb (pos\<lparr>status := OPEN\<rparr>) ?fx1
        = (None, set_exit_ids r1 r2 (pos\<lparr>status := OPEN\<rparr>),
           ?fx1\<lparr>trace := trace ?fx1 @ [PlaceOrder (sl_req ne (pos\<lparr>status := OPEN\<rparr>)),
                                      PlaceOrder (tgt_req ne (pos\<lparr>status := OPEN\<rparr>))]\<rparr>)"
    using a smb by (intro place_exit_orders_ok) simp_all
  with pend fill
  show "check_open_order br smb pos fx
        = (None, set_exit_ids r1 r2 (pos\<lparr>status := OPEN\<rparr>),
           fx\<lparr>trace := trace fx @ [GetOrderStatus (order_id pos), PlaceOrder (sl_req ne pos),
                                    PlaceOrder (tgt_req ne pos)]\<rparr>)"
    by (simp add: check_open_order_def call_get_order_status_def)
qed (simp_all add: sl_req_def tgt_req_def)

theorem entry_filled_opens_then_places_witness:
  "check_open_order (demo_broker (\<lambda>h oid. ''FILLED'') (\<lambda>h. 104)) ''NSE:ACME'' pending_pos no_effects
   = (None,
      pending_pos\<lparr>status := OPEN, sl_order_id := Some ''SL2'', target_order_id := Some ''TG2''\<rparr>,
      \<lparr>trace = [GetOrderStatus ''E1'',
                PlaceOrder \<lparr>symbol = ''ACME'', exchange = ''NSE'', transaction_type = SELL,
                            quantity = 1, product_type = MARGIN, order_type = STOP,
                            price = 95, stop_price = Some 95\<rparr>,
                PlaceOrder \<lparr>symbol = ''ACME'', exchange = ''NSE'', transaction_type = SELL,
                            quantity = 1, product_type = MARGIN, order_type = LIMIT,
                            price = 110, stop_price = None\<rparr>],
       log = []\<rparr>)"
proof -
  let ?br = "demo_broker (\<lambda>h oid. ''FILLED'') (\<lambda>h. 104)"
  have pend: "status pending_pos = PENDING_ENTRY"
    by (simp add: pending_pos_def)
  have fill: "get_order_status ?br (trace no_effects) (order_id pending_pos) = Inr ''FILLED''"
    by (simp add: demo_broker_def)
  have smb: "symbol_exchange ?br ''NSE:ACME'' = Inr (''ACME'', ''NSE'')"
    by (simp add: symbol_exchange_def demo_broker_def)
  from entry_filled_opens_then_places [OF pend fill smb]
  show ?thesis
    by (simp add: demo_broker_def set_exit_ids_def sl_req_def tgt_req_def pending_pos_def
                  long_pos_def no_effects_def)
qed

text \<open>
  Claim C3 as stated fails: the state does not become \<open>OPEN\<close> after the placements.
  With a gateway whose placements raise, the position is \<open>OPEN\<close> although no limit order
  was placed and no exit order was acknowledged.
\<close>

theorem open_before_exit_orders_counterexample:
  "fst (check_open_order failing_broker ''NSE:ACME'' pending_pos no_effects)
     = Some (BrokerError ''gateway down'')
   \<and> status (fst (snd (check_open_order failing_broker ''NSE:ACME'' pending_pos no_effects))) = OPEN
   \<and> sl_order_id (fst (snd (check_open_order failing_broker ''NSE:ACME'' pending_pos no_effects))) = None
   \<and> length (filter is_PlaceOrder
        (trace (snd (snd (check_open_order failing_broker ''NSE:ACME'' pending_pos no_effects))))) = 1"
  by (simp add: check_open_order_def place_exit_orders_def symbol_exchange_def call_defs
        failing_broker_def demo_broker_def pending_pos_def long_pos_def no_effects_def)


text \<open>
  The rounding matters at prices with two decimals: with the entry at 100.0, the target
  at 100.2 and the quote at 100.1 the test of line 181 succeeds, while the same test on
  the real numbers that these three floats hold fails.
\<close>

lemma breakeven_due_rounds:
  "breakeven_due (long_pos\<lparr>target := round_double (1002 / 10)\<rparr>) (round_double (1001 / 10))
   \<and> \<not> (round_double (1001 / 10)
          \<ge> entry_price long_pos + (round_double (1002 / 10) - entry_price long_pos) / 2)"
  by code_simp





section \<open>Properties of FVGStrategy: the registry\<close>

lemma for_items_keys:
  "for_items body ps fx = (r, ps', fx') \<Longrightarrow> map fst ps' = map fst ps"
proof (induction ps arbitrary: fx r ps' fx')
  case Nil
  then show ?case by simp
next
  case (Cons a ps)
  obtain smb pos where a: "a = (smb, pos)" by (cases a)
  obtain r1 pos1 fx1 where b: "body smb pos fx = (r1, pos1, fx1)" by (cases "body smb pos fx")
  show ?case
  proof (cases r1)
    case (Some e)
    with Cons.prems a b show ?thesis by auto
  next
    case None
    obtain r2 rest fx2 where c: "for_items body ps fx1 = (r2, rest, fx2)"
      by (cases "for_items body ps fx1")
    from Cons.IH[OF c] Cons.prems a b None c show ?thesis by auto
  qed
qed

lemma for_items_fixed:
  assumes "(smb, pos) \<in> set ps"
      and "\<And>fx. fst (snd (body smb pos fx)) = pos"
      and "for_items body ps fx = (r, ps', fx')"
  shows "(smb, pos) \<in> set ps'"
  using assms(1,3)
proof (induction ps arbitrary: fx r ps' fx')
  case Nil
  then show ?case by simp
next
  case (Cons a ps)
  obtain s p where a: "a = (s, p)" by (cases a)
  obtain r1 pos1 fx1 where b: "body s p fx = (r1, pos1, fx1)" by (cases "body s p fx")
  have keep: "(s, p) = (smb, pos) \<Longrightarrow> pos1 = pos"
    using assms(2)[of fx] b by auto
  show ?case
  proof (cases r1)
    case (Some e)
    with Cons.prems a b keep show ?thesis by auto
  next
    case None
    obtain r2 rest fx2 where c: "for_items body ps fx1 = (r2, rest, fx2)"
      by (cases "for_items body ps fx1")
    have "(smb, pos) \<in> set ps \<Longrightarrow> (smb, pos) \<in> set rest"
      using Cons.IH[OF _ c] by simp
    with Cons.prems a b None c keep show ?thesis by auto
  qed
qed

lemma for_items_raises:
  assumes "(smb, pos) \<in> set ps"
      and "\<And>fx. fst (body smb pos fx) \<noteq> None"
  shows "fst (for_items body ps fx) \<noteq> None"
  using assms(1)
proof (induction ps arbitrary: fx)
  case Nil
  then show ?case by simp
next
  case (Cons a ps)
  obtain s p where a: "a = (s, p)" by (cases a)
  obtain r1 pos1 fx1 where b: "body s p fx = (r1, pos1, fx1)" by (cases "body s p fx")
  show ?case
  proof (cases r1)
    case (Some e)
    with a b show ?thesis by simp
  next
    case None
    with assms(2)[of fx] a b have "(s, p) \<noteq> (smb, pos)" by auto
    with Cons.prems a have "(smb, pos) \<in> set ps" by auto
    from Cons.IH[OF this, of fx1] a b None show ?thesis
      by (auto split: prod.splits)
  qed
qed

lemma update_other_mem:
  "(k, v) \<in> set ps \<Longrightarrow> k \<noteq> k' \<Longrightarrow> (k, v) \<in> set (AList.update k' v' ps)"
  by (induction ps) auto

lemma update_keys:
  "set (map fst (AList.update k v ps)) = insert k (set (map fst ps))"
  by (induction ps) auto

lemma strategy_place_order_registry:
  "strategy_place_order br s qty tt en sl tg pt ps fx = (r, ps', fx') \<Longrightarrow>
     ps' = ps \<or> (\<exists>p. ps' = AList.update s p ps)"
  by (auto simp: strategy_place_order_def call_defs
           split: list.splits if_splits prod.splits sum.splits)

lemma check_long_registry:
  "check_long_entry_conditions br cfg df s ps fx = (r, ps', fx') \<Longrightarrow>
     ps' = ps \<or> (\<exists>p. ps' = AList.update s p ps)"
  by (auto simp: check_long_entry_conditions_def Let_def
           split: if_splits sum.splits bool.splits dest: strategy_place_order_registry)

lemma check_short_registry:
  "check_short_entry_conditions br cfg df s ps fx = (r, ps', fx') \<Longrightarrow>
     ps' = ps \<or> (\<exists>p. ps' = AList.update s p ps)"
  by (auto simp: check_short_entry_conditions_def Let_def
           split: if_splits sum.splits bool.splits dest: strategy_place_order_registry)

lemma analyze_try_mem:
  assumes "analyze_try br cfg s ps fx = (r, ps', fx')" and "(k, v) \<in> set ps" and "k \<noteq> s"
  shows "(k, v) \<in> set ps'"
proof (cases "call_get_history br s fx")
  case (Pair h fx1)
  show ?thesis
  proof (cases h)
    case (Inl e)
    with Pair assms show ?thesis by (simp add: analyze_try_def)
  next
    case (Inr df)
    show ?thesis
    proof (cases "df = [] \<or> indicators cfg df \<noteq> None")
      case True
      with Pair Inr assms show ?thesis
        by (auto simp: analyze_try_def split: option.splits if_splits)
    next
      case False
      obtain r1 ps1 fx2 where l: "check_long_entry_conditions br cfg df s ps fx1 = (r1, ps1, fx2)"
        by (cases "check_long_entry_conditions br cfg df s ps fx1")
      from check_long_registry[OF l] assms(2,3) have m1: "(k, v) \<in> set ps1"
        by (auto intro: update_other_mem)
      show ?thesis
      proof (cases r1)
        case (Some e)
        with Pair Inr False l assms(1) m1 show ?thesis by (auto simp: analyze_try_def)
      next
        case None
        with Pair Inr False l assms(1)
        have "check_short_entry_conditions br cfg df s ps1 fx2 = (r, ps', fx')"
          by (auto simp: analyze_try_def)
        from check_short_registry[OF this] m1 assms(3) show ?thesis
          by (auto intro: update_other_mem)
      qed
    qed
  qed
qed

lemma analyze_symbol_mem:
  assumes "analyze_symbol br cfg s ps fx = (r, ps', fx')" and "(k, v) \<in> set ps"
  shows "(k, v) \<in> set ps'"
proof (cases "s \<in> set (map fst ps)")
  case True
  with assms show ?thesis by (simp add: analyze_symbol_def)
next
  case False
  with assms(2) have ne: "k \<noteq> s" by force
  obtain r1 ps1 fx1 where t: "analyze_try br cfg s ps fx = (r1, ps1, fx1)"
    by (cases "analyze_try br cfg s ps fx")
  from analyze_try_mem[OF t assms(2) ne] have "(k, v) \<in> set ps1" .
  with assms(1) False t show ?thesis
    by (auto simp: analyze_symbol_def split: option.splits if_splits)
qed

lemma analyze_loop_mem:
  "analyze_loop br cfg ss ps fx = (r, ps', fx') \<Longrightarrow> (k, v) \<in> set ps \<Longrightarrow> (k, v) \<in> set ps'"
proof (induction ss arbitrary: ps fx)
  case Nil
  then show ?case by simp
next
  case (Cons s ss)
  obtain r1 ps1 fx1 where t: "analyze_symbol br cfg s ps fx = (r1, ps1, fx1)"
    by (cases "analyze_symbol br cfg s ps fx")
  from analyze_symbol_mem[OF t Cons.prems(2)] have m: "(k, v) \<in> set ps1" .
  show ?case
  proof (cases r1)
    case (Some e)
    with Cons.prems t m show ?thesis by auto
  next
    case None
    with Cons.prems t have "analyze_loop br cfg ss ps1 fx1 = (r, ps', fx')" by simp
    from Cons.IH[OF this m] show ?thesis .
  qed
qed

lemma analyze_and_trade_mem:
  "analyze_and_trade br cfg ps fx = (r, ps', fx') \<Longrightarrow> (k, v) \<in> set ps \<Longrightarrow> (k, v) \<in> set ps'"
  unfolding analyze_and_trade_def by (rule analyze_loop_mem)

lemma move_to_breakeven_missing:
  assumes "sl_order_id pos = None \<or> target_order_id pos = None"
  shows "\<exists>e. fst (move_to_breakeven br smb pos fx) = Some e
          \<and> (polls_return br \<longrightarrow> e = KeyError ''sl_order_id'' \<or> e = KeyError ''target_order_id'')"
  using assms
  by (auto simp: move_to_breakeven_def call_defs polls_return_def
           split: option.splits prod.splits)

lemma check_sl_ids:
  "check_sl br smb pos fx = (r, pos', fx') \<Longrightarrow>
     sl_order_id pos' = sl_order_id pos \<and> target_order_id pos' = target_order_id pos"
  by (auto simp: check_sl_def call_defs split: option.splits sum.splits if_splits prod.splits)

lemma check_target_missing:
  assumes "target_order_id pos = None"
  shows "check_target br smb pos fx = (Some (KeyError ''target_order_id''), pos, fx)"
  using assms by (simp add: check_target_def)

lemma check_sl_raises:
  "check_sl br smb pos fx = (Some e, pos', fx') \<Longrightarrow> polls_return br \<Longrightarrow>
     e = KeyError ''sl_order_id'' \<or> e = KeyError ''target_order_id''"
  by (auto simp: check_sl_def call_defs polls_return_def
           split: option.splits sum.splits if_splits prod.splits)
     (metis Inl_Inr_False option.distinct(1))+

lemma reconcile_missing:
  assumes "sl_order_id pos = None \<or> target_order_id pos = None"
  shows "\<exists>e. fst (reconcile br smb pos fx) = Some e
          \<and> (polls_return br \<longrightarrow> e = KeyError ''sl_order_id'' \<or> e = KeyError ''target_order_id'')"
proof (cases "check_sl br smb pos fx")
  case (fields r pos1 fx1)
  show ?thesis
  proof (cases r)
    case (Some e)
    with fields check_sl_raises[of br smb pos fx e pos1 fx1] show ?thesis
      by (simp add: reconcile_def)
  next
    case None
    with fields have sl: "sl_order_id pos \<noteq> None"
      by (auto simp: check_sl_def split: option.splits)
    with assms have "target_order_id pos = None" by simp
    with check_sl_ids[OF fields] have "target_order_id pos1 = None" by simp
    with fields None show ?thesis
      by (simp add: reconcile_def check_target_missing)
  qed
qed

lemma manage_position_missing:
  assumes op: "status pos = OPEN"
      and miss: "sl_order_id pos = None \<or> target_order_id pos = None"
  shows "\<exists>e. fst (manage_position br smb pos fx) = Some e
          \<and> (polls_return br \<longrightarrow> e = KeyError ''sl_order_id'' \<or> e = KeyError ''target_order_id'')"
proof (cases "get_quote br (trace fx) smb")
  case (Inl e)
  then have "\<not> polls_return br" by (metis polls_return_def Inl_Inr_False)
  with Inl op show ?thesis by (simp add: manage_position_def call_get_quote_def)
next
  case (Inr last_price)
  let ?fx1 = "fx\<lparr>trace := trace fx @ [GetQuote smb]\<rparr>"
  show ?thesis
  proof (cases "breakeven_due pos last_price")
    case True
    from move_to_breakeven_missing[OF miss, of br smb ?fx1]
    obtain e where e: "fst (move_to_breakeven br smb pos ?fx1) = Some e"
        "polls_return br \<longrightarrow> e = KeyError ''sl_order_id'' \<or> e = KeyError ''target_order_id''"
      by blast
    from e(1) Inr op True have "fst (manage_position br smb pos fx) = Some e"
      by (cases "move_to_breakeven br smb pos ?fx1")
         (simp add: manage_position_def call_get_quote_def)
    with e(2) show ?thesis by blast
  next
    case False
    with Inr op have "manage_position br smb pos fx = reconcile br smb pos ?fx1"
      by (simp add: manage_position_def call_get_quote_def)
    with reconcile_missing[OF miss, of br smb ?fx1] show ?thesis by simp
  qed
qed

lemma check_open_order_not_pending:
  "status pos \<noteq> PENDING_ENTRY \<Longrightarrow> check_open_order br smb pos fx = (None, pos, fx)"
  by (simp add: check_open_order_def)

lemma cycle_reaches_manage:
  assumes "cycle br cfg ps fx = (None, ps', fx')"
  obtains ps1 fx1 ps2 fx2 ps3 fx3 where
    "check_open_orders br ps fx = (None, ps1, fx1)"
    "analyze_and_trade br cfg ps1 fx1 = (None, ps2, fx2)"
    "manage_positions br ps2 fx2 = (None, ps3, fx3)"
    "display_table br ps3 fx3 = (None, ps', fx')"
  using assms unfolding cycle_def
  by (auto split: prod.splits option.splits)

text \<open>
  Claim C9. \<open>manage_positions\<close> reads \<open>sl_order_id\<close> and \<open>target_order_id\<close> of every open
  position. For an open position that lacks either of them, the body of the loop never
  completes: it ends with an exception, and when the quote, the status polls and the
  cancellations of the gateway return, that exception is the \<open>KeyError\<close> of the missing
  key. With such a position in the registry, \<open>manage_positions\<close> ends with an
  exception, and so does the cycle, and so does \<open>run\<close>, which has no handler: nothing is
  logged and the loop does not continue.
\<close>

theorem open_position_missing_exit_id_raises:
  assumes op: "status pos = OPEN"
      and miss: "sl_order_id pos = None \<or> target_order_id pos = None"
  shows "(\<exists>e. fst (manage_position br smb pos fx) = Some e
            \<and> (polls_return br \<longrightarrow> e = KeyError ''sl_order_id'' \<or> e = KeyError ''target_order_id''))
       \<and> ((smb, pos) \<in> set ps \<longrightarrow>
            fst (manage_positions br ps fx) \<noteq> None
            \<and> fst (cycle br cfg ps fx) \<noteq> None
            \<and> fst (run_cycles br cfg (Suc n) ps fx) \<noteq> None)"
proof (intro conjI impI)
  show "\<exists>e. fst (manage_position br smb pos fx) = Some e
            \<and> (polls_return br \<longrightarrow> e = KeyError ''sl_order_id'' \<or> e = KeyError ''target_order_id'')"
    by (rule manage_position_missing[OF op miss])
next
  have raises: "\<And>fx. fst (manage_position br smb pos fx) \<noteq> None"
    using manage_position_missing[OF op miss] by fastforce
  have all: "\<And>ps fx. (smb, pos) \<in> set ps \<Longrightarrow> fst (manage_positions br ps fx) \<noteq> None"
    unfolding manage_positions_def
    by (rule for_items_raises[where body = "manage_position br" and smb = smb and pos = pos])
       (simp_all add: raises)
  assume m: "(smb, pos) \<in> set ps"
  show "fst (manage_positions br ps fx) \<noteq> None" by (rule all[OF m])
  show c: "fst (cycle br cfg ps fx) \<noteq> None"
  proof
    assume "fst (cycle br cfg ps fx) = None"
    then obtain ps' fx' where "cycle br cfg ps fx = (None, ps', fx')"
      by (cases "cycle br cfg ps fx") auto
    then obtain ps1 fx1 ps2 fx2 ps3 fx3 where
      s: "check_open_orders br ps fx = (None, ps1, fx1)"
         "analyze_and_trade br cfg ps1 fx1 = (None, ps2, fx2)"
         "manage_positions br ps2 fx2 = (None, ps3, fx3)"
      by (rule cycle_reaches_manage)
    have "(smb, pos) \<in> set ps1"
      using m _ s(1)[unfolded check_open_orders_def]
      by (rule for_items_fixed) (simp add: check_open_order_not_pending op)
    with s(2) have "(smb, pos) \<in> set ps2" by (rule analyze_and_trade_mem)
    from all[OF this, of fx2] s(3) show False by simp
  qed
  from c show "fst (run_cycles br cfg (Suc n) ps fx) \<noteq> None"
    by (cases "cycle br cfg ps fx") (auto split: option.splits)
qed


theorem open_position_missing_exit_id_raises_witness:
  "check_open_order rejecting_broker ''NSE:ACME'' pending_pos no_effects
   = (None, pending_pos\<lparr>status := OPEN\<rparr>,
      \<lparr>trace = [GetOrderStatus ''E1'',
                PlaceOrder (sl_req (''ACME'', ''NSE'') pending_pos),
                PlaceOrder (tgt_req (''ACME'', ''NSE'') pending_pos)],
       log = []\<rparr>)
   \<and> polls_return rejecting_broker
   \<and> fst (manage_position rejecting_broker ''NSE:ACME'' (pending_pos\<lparr>status := OPEN\<rparr>) no_effects)
     = Some (KeyError ''sl_order_id'')
   \<and> fst (run_cycles rejecting_broker demo_config 1
            [(''NSE:ACME'', pending_pos\<lparr>status := OPEN\<rparr>)] no_effects) \<noteq> None"
proof -
  let ?p = "pending_pos\<lparr>status := OPEN\<rparr>"
  have a: "check_open_order rejecting_broker ''NSE:ACME'' pending_pos no_effects
   = (None, ?p,
      \<lparr>trace = [GetOrderStatus ''E1'',
                PlaceOrder (sl_req (''ACME'', ''NSE'') pending_pos),
                PlaceOrder (tgt_req (''ACME'', ''NSE'') pending_pos)],
       log = []\<rparr>)"
    by (simp add: check_open_order_def place_exit_orders_def symbol_exchange_def call_defs
          rejecting_broker_def demo_broker_def pending_pos_def long_pos_def no_effects_def
          sl_req_def tgt_req_def)
  have b: "polls_return rejecting_broker"
    by (simp add: polls_return_def rejecting_broker_def demo_broker_def)
  have op: "status ?p = OPEN" by simp
  have miss: "sl_order_id ?p = None \<or> target_order_id ?p = None"
    by (simp add: pending_pos_def)
  have c: "fst (manage_position rejecting_broker ''NSE:ACME'' ?p no_effects)
           = Some (KeyError ''sl_order_id'')"
    by (simp add: manage_position_def reconcile_def check_sl_def breakeven_due_def float_defs round_double_Ints call_defs
          rejecting_broker_def demo_broker_def pending_pos_def long_pos_def no_effects_def)
  from open_position_missing_exit_id_raises [OF op miss,
         of rejecting_broker "''NSE:ACME''" no_effects "[(''NSE:ACME'', ?p)]" demo_config 0]
  have "fst (run_cycles rejecting_broker demo_config 1 [(''NSE:ACME'', ?p)] no_effects) \<noteq> None"
    by simp
  with a b c show ?thesis by simp
qed

section \<open>Properties of the two control loops\<close>

lemma loop_body_price:
  "has_price v \<Longrightarrow>
     loop_body upd v st = (upd (handled st) v, st\<lparr>handled := handled st @ [v]\<rparr>)"
  by (cases v) (simp_all add: loop_body_def has_price_def)

lemma loop_body_raises:
  "loop_body upd v st = (Some e, st1) \<Longrightarrow> only_Exceptions upd \<Longrightarrow> is_Exception e"
  by (auto simp: loop_body_def only_Exceptions_def split: pyval.splits list.splits if_splits)

lemma strategy_loop_waiting:
  "only_Exceptions upd \<Longrightarrow> fst (strategy_loop upd q st) = Waiting"
proof (induction q arbitrary: st)
  case Nil
  show ?case by simp
next
  case (Cons v q)
  obtain r st1 where b: "loop_body upd v st = (r, st1)" by (cases "loop_body upd v st")
  show ?case
  proof (cases r)
    case None
    with b Cons show ?thesis by simp
  next
    case (Some e)
    with b Cons.prems have "is_Exception e" by (auto dest: loop_body_raises)
    then have "e \<noteq> KeyboardInterrupt" by auto
    with b Some \<open>is_Exception e\<close> Cons show ?thesis by simp
  qed
qed







lemma analyze_symbol_catches:
  assumes "smb \<notin> set (map fst ps)"
      and "analyze_try br cfg smb ps fx = (Some e, ps1, fx1)"
      and "is_Exception e"
  shows "analyze_symbol br cfg smb ps fx = (None, ps1, logger (ErrorProcessing smb e) fx1)"
  using assms by (simp add: analyze_symbol_def)

text \<open>
  What the two loops do with an exception. In the loop of \<open>run_strategy\<close>, an exception
  of class \<open>Exception\<close> raised by an iteration is caught and reported on the log queue,
  and the loop goes on with the next value; \<open>KeyboardInterrupt\<close> leaves the loop by
  \<open>break\<close>. In \<open>FVGStrategy.run\<close> an exception that leaves a cycle ends \<open>run\<close>; the
  analysis of one symbol is the only guarded step.
\<close>

lemma loops_and_exceptions:
  "(loop_body upd v st = (Some e, st1) \<and> is_Exception e \<longrightarrow>
      strategy_loop upd (v # q) st
      = strategy_loop upd q (st1\<lparr>loop_errors := loop_errors st1 @ [e]\<rparr>))
   \<and> (loop_body upd v st = (Some KeyboardInterrupt, st1) \<longrightarrow>
        strategy_loop upd (v # q) st = (Broke, st1))
   \<and> (only_Exceptions upd \<longrightarrow> fst (strategy_loop upd q st) = Waiting)
   \<and> (cycle br cfg ps fx = (Some e, ps1, fx1) \<longrightarrow>
        run_cycles br cfg (Suc n) ps fx = (Some e, ps1, fx1))
   \<and> (smb \<notin> set (map fst ps) \<and> analyze_try br cfg smb ps fx = (Some e, ps1, fx1)
        \<and> is_Exception e \<longrightarrow>
        analyze_symbol br cfg smb ps fx = (None, ps1, logger (ErrorProcessing smb e) fx1))"
proof (intro conjI impI)
  assume "loop_body upd v st = (Some e, st1) \<and> is_Exception e"
  moreover from this have "e \<noteq> KeyboardInterrupt" by auto
  ultimately show "strategy_loop upd (v # q) st
      = strategy_loop upd q (st1\<lparr>loop_errors := loop_errors st1 @ [e]\<rparr>)"
    by simp
next
  assume "loop_body upd v st = (Some KeyboardInterrupt, st1)"
  then show "strategy_loop upd (v # q) st = (Broke, st1)" by simp
next
  assume "only_Exceptions upd"
  then show "fst (strategy_loop upd q st) = Waiting" by (rule strategy_loop_waiting)
next
  assume "cycle br cfg ps fx = (Some e, ps1, fx1)"
  then show "run_cycles br cfg (Suc n) ps fx = (Some e, ps1, fx1)" by simp
next
  assume "smb \<notin> set (map fst ps) \<and> analyze_try br cfg smb ps fx = (Some e, ps1, fx1)
        \<and> is_Exception e"
  then show "analyze_symbol br cfg smb ps fx = (None, ps1, logger (ErrorProcessing smb e) fx1)"
    by (simp add: analyze_symbol_catches)
qed

lemma status_poll_raises_ends_run:
  assumes "status pos = PENDING_ENTRY"
      and "get_order_status br (trace fx) (order_id pos) = Inl e"
  shows "run_cycles br cfg (Suc n) ((smb, pos) # rest) fx
         = (Some e, (smb, pos) # rest, fx\<lparr>trace := trace fx @ [GetOrderStatus (order_id pos)]\<rparr>)"
  using assms
  by (simp add: cycle_def check_open_orders_def check_open_order_def call_get_order_status_def)

lemma quote_poll_raises_in_manage:
  assumes "status pos = OPEN"
      and "get_quote br (trace fx) smb = Inl e"
  shows "manage_positions br ((smb, pos) # rest) fx
         = (Some e, (smb, pos) # rest, fx\<lparr>trace := trace fx @ [GetQuote smb]\<rparr>)"
  using assms
  by (simp add: manage_positions_def manage_position_def call_get_quote_def)

lemma quote_poll_raises_in_display:
  assumes "get_quote br (trace fx) smb = Inl e"
  shows "display_table br ((smb, pos) # rest) fx
         = (Some e, (smb, pos) # rest, fx\<lparr>trace := trace fx @ [GetQuote smb]\<rparr>)"
  using assms
  by (simp add: display_table_def display_row_def call_get_quote_def)

text \<open>
  Claim C4, at the inputs where the code departs from it. The period-aligned loop of
  \<open>FVGStrategy.run\<close> does not catch what a poll raises: a status poll that raises in
  \<open>check_open_orders\<close> during the first iteration ends \<open>run\<close>, nothing is logged and
  the second iteration makes no call; a quote poll that raises in \<open>manage_positions\<close>
  does the same. The sibling paths do what the claim says: the analysis of a symbol logs
  the exception of its history request and \<open>analyze_and_trade\<close> returns, and the
  event-driven loop of \<open>run_strategy\<close> reports the exception of the strategy's callback
  and handles the next value.
\<close>

theorem poll_error_ends_run:
  "run_cycles timeout_broker demo_config 2 [(''NSE:ACME'', pending_pos)] no_effects
   = (Some (BrokerError ''timeout''), [(''NSE:ACME'', pending_pos)],
      \<lparr>trace = [GetOrderStatus ''E1''], log = []\<rparr>)
   \<and> run_cycles quote_down_broker demo_config 2 [(''NSE:ACME'', long_pos)] no_effects
   = (Some (BrokerError ''no quote''), [(''NSE:ACME'', long_pos)],
      \<lparr>trace = [GetQuote ''NSE:ACME''], log = [AnalyzingFVG]\<rparr>)
   \<and> analyze_and_trade history_down_broker demo_config [] no_effects
   = (None, [],
      \<lparr>trace = [GetHistory ''NSE:ACME''],
       log = [AnalyzingFVG, ErrorProcessing ''NSE:ACME'' (BrokerError ''no history'')]\<rparr>)
   \<and> strategy_loop first_raises [tick_A, tick_C] loop_init
   = (Waiting, \<lparr>handled = [tick_A, tick_C], loop_errors = [ValueError]\<rparr>)"
proof (intro conjI)
  show "run_cycles timeout_broker demo_config 2 [(''NSE:ACME'', pending_pos)] no_effects
   = (Some (BrokerError ''timeout''), [(''NSE:ACME'', pending_pos)],
      \<lparr>trace = [GetOrderStatus ''E1''], log = []\<rparr>)"
    by (simp add: numeral_2_eq_2 cycle_def check_open_orders_def check_open_order_def call_defs
          timeout_broker_def demo_broker_def pending_pos_def long_pos_def no_effects_def)
  show "run_cycles quote_down_broker demo_config 2 [(''NSE:ACME'', long_pos)] no_effects
   = (Some (BrokerError ''no quote''), [(''NSE:ACME'', long_pos)],
      \<lparr>trace = [GetQuote ''NSE:ACME''], log = [AnalyzingFVG]\<rparr>)"
    by (simp add: numeral_2_eq_2 cycle_def check_open_orders_def check_open_order_def
          analyze_and_trade_def analyze_symbol_def manage_positions_def manage_position_def
          call_defs quote_down_broker_def demo_broker_def demo_config_def long_pos_def
          no_effects_def logger_def)
  show "analyze_and_trade history_down_broker demo_config [] no_effects
   = (None, [],
      \<lparr>trace = [GetHistory ''NSE:ACME''],
       log = [AnalyzingFVG, ErrorProcessing ''NSE:ACME'' (BrokerError ''no history'')]\<rparr>)"
    by (simp add: analyze_and_trade_def analyze_symbol_def analyze_try_def call_defs
          history_down_broker_def demo_broker_def demo_config_def no_effects_def logger_def)
  show "strategy_loop first_raises [tick_A, tick_C] loop_init
   = (Waiting, \<lparr>handled = [tick_A, tick_C], loop_errors = [ValueError]\<rparr>)"
    by (simp add: loop_body_def first_raises_def loop_init_def tick_A_def tick_C_def)
qed

section \<open>Properties of FVGStrategy: the breakeven adjustment over the lifetime\<close>

lemma breakevens_logger [simp]:
  "breakevens smb (logger m fx)
   = breakevens smb fx + (if m = MovedSLToBreakeven smb then 1 else 0)"
  by (simp add: breakevens_def logger_def)

lemma breakevens_trace [simp]: "breakevens smb (fx\<lparr>trace := t\<rparr>) = breakevens smb fx"
  by (simp add: breakevens_def)

lemma place_exit_orders_keeps:
  "place_exit_orders br s p fx = (r, p', fx') \<Longrightarrow>
     breakevens smb fx' = breakevens smb fx
     \<and> stop_loss p' = stop_loss p \<and> entry_price p' = entry_price p"
  by (auto simp: place_exit_orders_def call_defs Let_def
           split: sum.splits prod.splits if_splits)

lemma check_open_order_budget:
  "check_open_order br s p fx = (r, p', fx') \<Longrightarrow>
     breakevens smb fx' + armed smb s p' \<le> breakevens smb fx + armed smb s p"
  by (auto simp: check_open_order_def call_defs armed_def
           split: sum.splits prod.splits if_splits dest!: place_exit_orders_keeps[where smb = smb])

lemma display_row_budget:
  "display_row br s p fx = (r, p', fx') \<Longrightarrow>
     breakevens smb fx' + armed smb s p' \<le> breakevens smb fx + armed smb s p"
  by (auto simp: display_row_def call_defs split: sum.splits prod.splits if_splits)

lemma check_sl_keeps:
  "check_sl br s p fx = (r, p', fx') \<Longrightarrow>
     breakevens smb fx' = breakevens smb fx
     \<and> stop_loss p' = stop_loss p \<and> entry_price p' = entry_price p"
  by (auto simp: check_sl_def call_defs
           split: option.splits sum.splits if_splits prod.splits)

lemma check_target_keeps:
  "check_target br s p fx = (r, p', fx') \<Longrightarrow>
     breakevens smb fx' = breakevens smb fx
     \<and> stop_loss p' = stop_loss p \<and> entry_price p' = entry_price p"
  by (auto simp: check_target_def call_defs
           split: option.splits sum.splits if_splits prod.splits)

lemma reconcile_keeps:
  "reconcile br s p fx = (r, p', fx') \<Longrightarrow>
     breakevens smb fx' = breakevens smb fx
     \<and> stop_loss p' = stop_loss p \<and> entry_price p' = entry_price p"
  unfolding reconcile_def
  by (auto split: prod.splits option.splits
           dest!: check_sl_keeps[where smb = smb] check_target_keeps[where smb = smb])

lemma breakeven_due_armed: "breakeven_due p last_price \<Longrightarrow> stop_loss p \<noteq> entry_price p"
  by (auto simp: breakeven_due_def split: if_splits)

lemma move_to_breakeven_budget:
  assumes "stop_loss p \<noteq> entry_price p"
      and "move_to_breakeven br s p fx = (r, p', fx')"
  shows "breakevens smb fx' + armed smb s p' \<le> breakevens smb fx + armed smb s p"
  using assms
  by (auto simp: move_to_breakeven_def call_defs armed_def
           split: option.splits prod.splits
           dest!: place_exit_orders_keeps[where smb = smb])

lemma manage_position_budget:
  assumes "manage_position br s p fx = (r, p', fx')"
  shows "breakevens smb fx' + armed smb s p' \<le> breakevens smb fx + armed smb s p"
proof (cases "status p = OPEN")
  case False
  with assms show ?thesis by (simp add: manage_position_def)
next
  case True
  let ?fx1 = "fx\<lparr>trace := trace fx @ [GetQuote s]\<rparr>"
  show ?thesis
  proof (cases "get_quote br (trace fx) s")
    case (Inl e)
    with True assms show ?thesis by (auto simp: manage_position_def call_get_quote_def)
  next
    case (Inr last_price)
    obtain r1 p1 fx2 where m:
      "(if breakeven_due p last_price then move_to_breakeven br s p ?fx1 else (None, p, ?fx1))
       = (r1, p1, fx2)"
      by (cases "if breakeven_due p last_price then move_to_breakeven br s p ?fx1
                 else (None, p, ?fx1)")
    have step1: "breakevens smb fx2 + armed smb s p1 \<le> breakevens smb fx + armed smb s p"
    proof (cases "breakeven_due p last_price")
      case True
      with m have "move_to_breakeven br s p ?fx1 = (r1, p1, fx2)" by simp
      from move_to_breakeven_budget[OF breakeven_due_armed[OF True] this, of smb]
      show ?thesis by simp
    next
      case False
      with m show ?thesis by auto
    qed
    show ?thesis
    proof (cases r1)
      case (Some e)
      with True Inr m assms step1 show ?thesis
        by (auto simp: manage_position_def call_get_quote_def)
    next
      case None
      with True Inr m assms have "reconcile br s p1 fx2 = (r, p', fx')"
        by (auto simp: manage_position_def call_get_quote_def)
      from reconcile_keeps[OF this, of smb] step1 show ?thesis
        by (simp add: armed_def)
    qed
  qed
qed

lemma armed_sum_Nil [simp]: "armed_sum smb [] = 0"
  by (simp add: armed_sum_def)

lemma armed_sum_Cons [simp]:
  "armed_sum smb ((s, p) # ps) = armed smb s p + armed_sum smb ps"
  by (simp add: armed_sum_def)

lemma armed_le: "armed smb s p \<le> Suc 0"
  by (simp add: armed_def)

lemma armed_sum_absent: "smb \<notin> set (map fst ps) \<Longrightarrow> armed_sum smb ps = 0"
proof (induction ps)
  case Nil
  show ?case by simp
next
  case (Cons a ps)
  obtain s p where a: "a = (s, p)" by (cases a)
  with Cons show ?case by (auto simp: armed_def)
qed

lemma for_items_budget:
  assumes body: "\<And>s p fx r p' fx'. body s p fx = (r, p', fx') \<Longrightarrow>
                   breakevens smb fx' + armed smb s p' \<le> breakevens smb fx + armed smb s p"
  shows "for_items body ps fx = (r, ps', fx') \<Longrightarrow>
         breakevens smb fx' + armed_sum smb ps' \<le> breakevens smb fx + armed_sum smb ps"
proof (induction ps arbitrary: fx r ps' fx')
  case Nil
  then show ?case by simp
next
  case (Cons a ps)
  obtain s p where a: "a = (s, p)" by (cases a)
  obtain r1 p1 fx1 where b: "body s p fx = (r1, p1, fx1)" by (cases "body s p fx")
  note h = body[OF b]
  show ?case
  proof (cases r1)
    case (Some e)
    with Cons.prems a b have "ps' = (s, p1) # ps" "fx' = fx1" by simp_all
    with a h show ?thesis by simp
  next
    case None
    obtain r2 rest fx2 where c: "for_items body ps fx1 = (r2, rest, fx2)"
      by (cases "for_items body ps fx1")
    from Cons.prems a b None c have e: "ps' = (s, p1) # rest" "fx' = fx2" by simp_all
    from Cons.IH[OF c] h e a show ?thesis by simp
  qed
qed

lemma for_items_total_budget:
  assumes body: "\<And>s p fx r p' fx'. body s p fx = (r, p', fx') \<Longrightarrow>
                   breakevens smb fx' + armed smb s p' \<le> breakevens smb fx + armed smb s p"
      and run: "for_items body ps fx = (r, ps', fx')"
  shows "breakevens smb fx' + budget smb ps' \<le> breakevens smb fx + budget smb ps"
proof -
  have k: "map fst ps' = map fst ps" by (rule for_items_keys[OF run])
  have le: "breakevens smb fx' + armed_sum smb ps' \<le> breakevens smb fx + armed_sum smb ps"
    using run by (rule for_items_budget[rotated]) (rule body)
  show ?thesis
  proof (cases "smb \<in> set (map fst ps)")
    case True
    with k le show ?thesis by (simp only: budget_def if_True)
  next
    case False
    then have z: "armed_sum smb ps = 0" by (rule armed_sum_absent)
    from False k have "smb \<notin> set (map fst ps')" by simp
    then have z': "armed_sum smb ps' = 0" by (rule armed_sum_absent)
    from False k have b: "budget smb ps' = 1" "budget smb ps = 1" by (simp_all add: budget_def)
    from z z' le b show ?thesis by simp
  qed
qed

lemma armed_sum_update_other:
  "s \<noteq> smb \<Longrightarrow> armed_sum smb (AList.update s p ps) = armed_sum smb ps"
proof (induction ps)
  case Nil
  then show ?case by (simp add: armed_def)
next
  case (Cons a ps)
  obtain k v where a: "a = (k, v)" by (cases a)
  with Cons show ?case by (auto simp: armed_def)
qed

lemma armed_sum_update_new:
  "s \<notin> set (map fst ps) \<Longrightarrow> armed_sum smb (AList.update s p ps) = armed_sum smb ps + armed smb s p"
proof (induction ps)
  case Nil
  then show ?case by (simp add: armed_def)
next
  case (Cons a ps)
  obtain k v where a: "a = (k, v)" by (cases a)
  with Cons show ?case by (auto simp: armed_def)
qed

lemma budget_update:
  assumes "s \<notin> set (map fst ps)"
  shows "budget smb (AList.update s p ps) \<le> budget smb ps"
proof (cases "s = smb")
  case True
  with assms have "armed_sum smb (AList.update s p ps) = armed smb s p"
    by (simp add: armed_sum_update_new armed_sum_absent)
  then have "armed_sum smb (AList.update s p ps) \<le> 1" by (simp add: armed_le)
  with True assms show ?thesis by (simp add: budget_def dom_update)
next
  case False
  then show ?thesis by (simp add: budget_def dom_update armed_sum_update_other)
qed

lemma strategy_place_order_breakevens:
  "strategy_place_order br s qty tt en sl tg pt ps fx = (r, ps', fx') \<Longrightarrow>
     breakevens smb fx' = breakevens smb fx"
  by (auto simp: strategy_place_order_def call_defs
           split: list.splits if_splits prod.splits sum.splits)

lemma check_long_breakevens:
  assumes a: "check_long_entry_conditions br cfg df s ps fx = (r, ps', fx')"
  shows "breakevens smb fx' = breakevens smb fx"
proof (cases "length df < 2 \<or> \<not> last (is_bullish_fvg df)")
  case True
  with a show ?thesis by (auto simp: check_long_entry_conditions_def Let_def split: if_splits)
next
  case False
  show ?thesis
  proof (cases "long_filter cfg df")
    case (Inl e)
    with False a show ?thesis by (auto simp: check_long_entry_conditions_def Let_def)
  next
    case (Inr b)
    show ?thesis
    proof (cases b)
      case True
      with False Inr a obtain m where
        "strategy_place_order br s 1 BUY (high (last df)) (low (df ! (length df - 2)))
           (float_add (high (last df)) (float_mul 2 (float_sub (high (last df)) (low (df ! (length df - 2)))))) LONG ps
           (logger m fx) = (r, ps', fx')"
        and "m = LongEntryMet s (high (last df)) (low (df ! (length df - 2)))
                   (float_add (high (last df)) (float_mul 2 (float_sub (high (last df)) (low (df ! (length df - 2))))))"
        by (simp add: check_long_entry_conditions_def Let_def)
      from strategy_place_order_breakevens[OF this(1), of smb] this(2) show ?thesis by simp
    next
      case F: False
      with False Inr a show ?thesis by (auto simp: check_long_entry_conditions_def Let_def)
    qed
  qed
qed

lemma check_short_breakevens:
  assumes a: "check_short_entry_conditions br cfg df s ps fx = (r, ps', fx')"
  shows "breakevens smb fx' = breakevens smb fx"
proof (cases "length df < 2 \<or> \<not> last (is_bearish_fvg df)")
  case True
  with a show ?thesis by (auto simp: check_short_entry_conditions_def Let_def split: if_splits)
next
  case False
  show ?thesis
  proof (cases "short_filter cfg df")
    case (Inl e)
    with False a show ?thesis by (auto simp: check_short_entry_conditions_def Let_def)
  next
    case (Inr b)
    show ?thesis
    proof (cases b)
      case True
      with False Inr a obtain m where
        "strategy_place_order br s 1 SELL (low (last df)) (high (df ! (length df - 2)))
           (float_sub (low (last df)) (float_mul 2 (float_sub (high (df ! (length df - 2))) (low (last df))))) SHORT ps
           (logger m fx) = (r, ps', fx')"
        and "m = ShortEntryMet s (low (last df)) (high (df ! (length df - 2)))
                   (float_sub (low (last df)) (float_mul 2 (float_sub (high (df ! (length df - 2))) (low (last df)))))"
        by (simp add: check_short_entry_conditions_def Let_def)
      from strategy_place_order_breakevens[OF this(1), of smb] this(2) show ?thesis by simp
    next
      case F: False
      with False Inr a show ?thesis by (auto simp: check_short_entry_conditions_def Let_def)
    qed
  qed
qed

lemma analyze_try_budget:
  assumes "analyze_try br cfg s ps fx = (r, ps', fx')" and new: "s \<notin> set (map fst ps)"
  shows "breakevens smb fx' = breakevens smb fx \<and> budget smb ps' \<le> budget smb ps"
proof (cases "get_history br (trace fx) s")
  case (Inl e)
  with assms show ?thesis by (auto simp: analyze_try_def call_get_history_def)
next
  case (Inr df)
  let ?fx1 = "fx\<lparr>trace := trace fx @ [GetHistory s]\<rparr>"
  show ?thesis
  proof (cases "df = [] \<or> indicators cfg df \<noteq> None")
    case True
    with Inr assms show ?thesis
      by (auto simp: analyze_try_def call_get_history_def split: option.splits if_splits)
  next
    case False
    obtain r1 ps1 fx2 where l: "check_long_entry_conditions br cfg df s ps ?fx1 = (r1, ps1, fx2)"
      by (cases "check_long_entry_conditions br cfg df s ps ?fx1")
    have b1: "breakevens smb fx2 = breakevens smb fx"
      using check_long_breakevens[OF l, of smb] by simp
    from check_long_registry[OF l] have g1: "budget smb ps1 \<le> budget smb ps"
      using budget_update[OF new] by auto
    show ?thesis
    proof (cases r1)
      case (Some e)
      with Inr False l assms(1) b1 g1 show ?thesis
        by (auto simp: analyze_try_def call_get_history_def)
    next
      case None
      with Inr False l assms(1)
      have s: "check_short_entry_conditions br cfg df s ps1 fx2 = (r, ps', fx')"
        by (auto simp: analyze_try_def call_get_history_def)
      have b2: "breakevens smb fx' = breakevens smb fx"
        using check_short_breakevens[OF s, of smb] b1 by simp
      from check_long_registry[OF l] check_short_registry[OF s]
      have "ps' = ps \<or> (\<exists>p. ps' = AList.update s p ps)" by auto
      then have "budget smb ps' \<le> budget smb ps"
        using budget_update[OF new] by auto
      with b2 show ?thesis by simp
    qed
  qed
qed

lemma analyze_symbol_budget:
  assumes "analyze_symbol br cfg s ps fx = (r, ps', fx')"
  shows "breakevens smb fx' = breakevens smb fx \<and> budget smb ps' \<le> budget smb ps"
proof (cases "s \<in> set (map fst ps)")
  case True
  with assms show ?thesis by (simp add: analyze_symbol_def)
next
  case False
  obtain r1 ps1 fx1 where t: "analyze_try br cfg s ps fx = (r1, ps1, fx1)"
    by (cases "analyze_try br cfg s ps fx")
  note h = analyze_try_budget[OF t False, of smb]
  show ?thesis
  proof (cases r1)
    case None
    with assms False t have "ps' = ps1" "fx' = fx1" by (simp_all add: analyze_symbol_def)
    with h show ?thesis by simp
  next
    case (Some e)
    show ?thesis
    proof (cases "is_Exception e")
      case True
      with Some assms False t have "ps' = ps1" "fx' = logger (ErrorProcessing s e) fx1"
        by (simp_all add: analyze_symbol_def)
      with h show ?thesis by simp
    next
      case F: False
      with Some assms False t have "ps' = ps1" "fx' = fx1" by (simp_all add: analyze_symbol_def)
      with h show ?thesis by simp
    qed
  qed
qed

lemma analyze_loop_budget:
  "analyze_loop br cfg ss ps fx = (r, ps', fx') \<Longrightarrow>
     breakevens smb fx' = breakevens smb fx \<and> budget smb ps' \<le> budget smb ps"
proof (induction ss arbitrary: ps fx)
  case Nil
  then show ?case by simp
next
  case (Cons s ss)
  obtain r1 ps1 fx1 where t: "analyze_symbol br cfg s ps fx = (r1, ps1, fx1)"
    by (cases "analyze_symbol br cfg s ps fx")
  note h = analyze_symbol_budget[OF t, of smb]
  show ?case
  proof (cases r1)
    case (Some e)
    with Cons.prems t have "ps' = ps1" "fx' = fx1" by simp_all
    with h show ?thesis by simp
  next
    case None
    with Cons.prems t have "analyze_loop br cfg ss ps1 fx1 = (r, ps', fx')" by simp
    from Cons.IH[OF this] h show ?thesis by simp
  qed
qed

lemma cycle_budget:
  assumes "cycle br cfg ps fx = (r, ps', fx')"
  shows "breakevens smb fx' + budget smb ps' \<le> breakevens smb fx + budget smb ps"
proof -
  obtain r1 ps1 fx1 where a: "check_open_orders br ps fx = (r1, ps1, fx1)"
    by (cases "check_open_orders br ps fx")
  have A: "breakevens smb fx1 + budget smb ps1 \<le> breakevens smb fx + budget smb ps"
    by (rule for_items_total_budget[where body = "check_open_order br",
              OF check_open_order_budget a[unfolded check_open_orders_def]])
  show ?thesis
  proof (cases r1)
    case (Some e)
    with a assms have "ps' = ps1" "fx' = fx1" by (simp_all add: cycle_def)
    with A show ?thesis by simp
  next
    case None
    obtain r2 ps2 fx2 where b: "analyze_and_trade br cfg ps1 fx1 = (r2, ps2, fx2)"
      by (cases "analyze_and_trade br cfg ps1 fx1")
    have "breakevens smb fx2 = breakevens smb (logger AnalyzingFVG fx1)
          \<and> budget smb ps2 \<le> budget smb ps1"
      by (rule analyze_loop_budget[OF b[unfolded analyze_and_trade_def]])
    then have "breakevens smb fx2 = breakevens smb fx1" "budget smb ps2 \<le> budget smb ps1"
      by simp_all
    with A have B: "breakevens smb fx2 + budget smb ps2 \<le> breakevens smb fx + budget smb ps"
      by linarith
    show ?thesis
    proof (cases r2)
      case (Some e)
      with a None b assms have "ps' = ps2" "fx' = fx2" by (simp_all add: cycle_def)
      with B show ?thesis by simp
    next
      case None2: None
      obtain r3 ps3 fx3 where c: "manage_positions br ps2 fx2 = (r3, ps3, fx3)"
        by (cases "manage_positions br ps2 fx2")
      have C: "breakevens smb fx3 + budget smb ps3 \<le> breakevens smb fx2 + budget smb ps2"
        by (rule for_items_total_budget[where body = "manage_position br",
                  OF manage_position_budget c[unfolded manage_positions_def]])
      show ?thesis
      proof (cases r3)
        case (Some e)
        with a None b None2 c assms have e: "ps' = ps3" "fx' = fx3" by (simp_all add: cycle_def)
        from B C show ?thesis unfolding e by linarith
      next
        case None3: None
        with a None b None2 c assms have d: "display_table br ps3 fx3 = (r, ps', fx')"
          by (simp add: cycle_def)
        have "breakevens smb fx' + budget smb ps' \<le> breakevens smb fx3 + budget smb ps3"
          by (rule for_items_total_budget[where body = "display_row br",
                    OF display_row_budget d[unfolded display_table_def]])
        with B C show ?thesis by linarith
      qed
    qed
  qed
qed

lemma run_cycles_budget:
  "run_cycles br cfg n ps fx = (r, ps', fx') \<Longrightarrow>
     breakevens smb fx' + budget smb ps' \<le> breakevens smb fx + budget smb ps"
proof (induction n arbitrary: ps fx)
  case 0
  then show ?case by simp
next
  case (Suc n)
  obtain r1 ps1 fx1 where c: "cycle br cfg ps fx = (r1, ps1, fx1)"
    by (cases "cycle br cfg ps fx")
  note h = cycle_budget[OF c, of smb]
  show ?case
  proof (cases r1)
    case (Some e)
    with Suc.prems c have "ps' = ps1" "fx' = fx1" by simp_all
    with h show ?thesis by simp
  next
    case None
    with Suc.prems c have "run_cycles br cfg n ps1 fx1 = (r, ps', fx')" by simp
    from Suc.IH[OF this] h show ?thesis by simp
  qed
qed

lemma armed_sum_distinct: "distinct (map fst ps) \<Longrightarrow> armed_sum smb ps \<le> Suc 0"
proof (induction ps)
  case Nil
  show ?case by simp
next
  case (Cons a ps)
  obtain s p where a: "a = (s, p)" by (cases a)
  from Cons.prems a have d: "distinct (map fst ps)" and n: "s \<notin> set (map fst ps)" by simp_all
  show ?case
  proof (cases "s = smb")
    case True
    with n have "armed_sum smb ps = 0" by (simp add: armed_sum_absent)
    then have "armed_sum smb (a # ps) = armed smb s p" unfolding a by simp
    then show ?thesis by (simp only: armed_le)
  next
    case False
    then have "armed smb s p = 0" by (simp add: armed_def)
    then have "armed_sum smb (a # ps) = armed_sum smb ps" unfolding a by simp
    with Cons.IH[OF d] show ?thesis by (simp only:)
  qed
qed

lemma budget_distinct: "distinct (map fst ps) \<Longrightarrow> budget smb ps \<le> 1"
  using armed_sum_distinct[of ps smb] by (simp add: budget_def)

lemma armed_sum_settled:
  "\<forall>pos. (smb, pos) \<in> set ps \<longrightarrow> stop_loss pos = entry_price pos \<Longrightarrow> armed_sum smb ps = 0"
proof (induction ps)
  case Nil
  show ?case by simp
next
  case (Cons a ps)
  obtain s p where a: "a = (s, p)" by (cases a)
  have "stop_loss p = entry_price p" if "s = smb"
  proof -
    from that a have "(smb, p) \<in> set (a # ps)" by simp
    then show ?thesis by (rule Cons.prems[rule_format])
  qed
  then have "armed smb s p = 0" unfolding armed_def by presburger
  moreover from Cons.prems have "\<forall>pos. (smb, pos) \<in> set ps \<longrightarrow> stop_loss pos = entry_price pos"
    by (meson list.set_intros(2))
  then have "armed_sum smb ps = 0" by (rule Cons.IH)
  ultimately show ?case unfolding a by simp
qed

lemma budget_settled:
  assumes "smb \<in> set (map fst ps)"
      and "\<forall>pos. (smb, pos) \<in> set ps \<longrightarrow> stop_loss pos = entry_price pos"
  shows "budget smb ps = 0"
  using assms(1) armed_sum_settled[OF assms(2)] by (simp add: budget_def)

subsection \<open>The adjustment in the trace\<close>

lemma split_colon_ne: "split_colon s \<noteq> []"
  by (induction s) (auto split: list.splits)

lemma join_colon_Cons: "ws \<noteq> [] \<Longrightarrow> join_colon ((c # w) # ws) = c # join_colon (w # ws)"
  by (cases ws) simp_all

lemma join_split: "join_colon (split_colon s) = s"
proof (induction s)
  case Nil
  show ?case by simp
next
  case (Cons c cs)
  obtain w ws where sp: "split_colon cs = w # ws"
    using split_colon_ne[of cs] by (cases "split_colon cs") auto
  show ?case
  proof (cases "c = CHR '':''")
    case True
    with Cons sp show ?thesis by simp
  next
    case False
    have "join_colon ((c # w) # ws) = c # join_colon (w # ws)" by (cases ws) simp_all
    with False Cons sp show ?thesis by simp
  qed
qed

lemma split_colon_inj: "split_colon s = split_colon s' \<Longrightarrow> s = s'"
  by (metis join_split)

lemma placements_logger [simp]: "placements smb (logger m fx) = placements smb fx"
  by (simp add: placements_def logger_def)

lemma placements_quiet:
  "trace fx' = trace fx @ tr \<Longrightarrow> filter is_PlaceOrder tr = [] \<Longrightarrow>
     placements smb fx' = placements smb fx"
proof -
  assume t: "trace fx' = trace fx @ tr" and n: "filter is_PlaceOrder tr = []"
  have "order_for smb c \<Longrightarrow> is_PlaceOrder c" for c by (cases c) simp_all
  with n have "filter (order_for smb) tr = []" by (auto simp: filter_empty_conv)
  with t show ?thesis by (simp add: placements_def)
qed

lemma place_exit_orders_other:
  assumes "place_exit_orders br s p fx = (r, p', fx')"
      and "length (split_colon s) = 2" and "split_colon smb \<noteq> split_colon s"
  shows "placements smb fx' = placements smb fx"
proof -
  from assms(2) obtain exch name where sp: "split_colon s = [exch, name]"
    by (cases "split_colon s" rule: list.exhaust)
       (auto simp: length_Suc_conv split: list.splits)
  with assms(3) have ne: "split_colon smb \<noteq> [exch, name]" by simp
  show ?thesis
  proof (cases "exch \<in> set (exchanges br)")
    case False
    with sp assms(1) show ?thesis by (simp add: place_exit_orders_def symbol_exchange_def)
  next
    case True
    with sp have sx: "symbol_exchange br s = Inr (name, exch)"
      by (simp add: symbol_exchange_def)
    have o1: "\<not> order_for smb (PlaceOrder (sl_req (name, exch) q))" for q
      using ne by (simp add: sl_req_def)
    have o2: "\<not> order_for smb (PlaceOrder (tgt_req (name, exch) q))" for q
      using ne by (simp add: tgt_req_def)
    from assms(1) sx o1 o2 show ?thesis
      by (auto simp: place_exit_orders_def call_place_order_def Let_def placements_def
               split: sum.splits prod.splits if_splits)
  qed
qed

lemma place_exit_orders_status:
  "place_exit_orders br s p fx = (r, p', fx') \<Longrightarrow> status p' = status p"
  by (auto simp: place_exit_orders_def call_place_order_def Let_def
           split: sum.splits prod.splits if_splits)

lemma check_open_order_ok:
  assumes run: "check_open_order br s p fx = (r, p', fx')" and ok: "entry_ok smb s p"
  shows "placements smb fx' = placements smb fx \<and> entry_ok smb s p'"
proof (cases "status p = PENDING_ENTRY")
  case False
  with run have "p' = p" "fx' = fx" by (simp_all add: check_open_order_def)
  with ok show ?thesis by simp
next
  case True
  with ok have ne: "s \<noteq> smb" and len: "length (split_colon s) = 2"
    by (auto simp: entry_ok_def)
  from ne have d: "split_colon smb \<noteq> split_colon s" by (auto dest: split_colon_inj)
  let ?fx1 = "fx\<lparr>trace := trace fx @ [GetOrderStatus (order_id p)]\<rparr>"
  have q: "placements smb ?fx1 = placements smb fx" by (simp add: placements_def)
  have ok': "entry_ok smb s x" for x using ne len by (simp add: entry_ok_def)
  show ?thesis
  proof (cases "get_order_status br (trace fx) (order_id p)")
    case (Inl e)
    with True run have "fx' = ?fx1" by (auto simp: check_open_order_def call_get_order_status_def)
    with q ok' show ?thesis by simp
  next
    case (Inr st)
    show ?thesis
    proof (cases "st = ''FILLED''")
      case F: False
      with Inr True run have "fx' = ?fx1"
        by (auto simp: check_open_order_def call_get_order_status_def)
      with q ok' show ?thesis by simp
    next
      case T: True
      with Inr True run
      have "place_exit_orders br s (p\<lparr>status := OPEN\<rparr>) ?fx1 = (r, p', fx')"
        by (simp add: check_open_order_def call_get_order_status_def)
      from place_exit_orders_other[OF this len d] q ok' show ?thesis by simp
    qed
  qed
qed

lemma reconcile_status:
  "reconcile br s p fx = (r, p', fx') \<Longrightarrow> status p \<noteq> PENDING_ENTRY \<Longrightarrow>
     status p' \<noteq> PENDING_ENTRY"
  unfolding reconcile_def
  by (auto simp: check_sl_def check_target_def call_defs
           split: prod.splits option.splits sum.splits if_splits)

lemma reconcile_placements:
  assumes "reconcile br s p fx = (r, p', fx')"
  shows "placements smb fx' = placements smb fx"
proof -
  from reconcile_quiet[OF assms] obtain tr where
    "trace fx' = trace fx @ tr" "filter is_PlaceOrder tr = []"
    by (auto simp: quiet_step_def)
  then show ?thesis by (rule placements_quiet)
qed

lemma move_to_breakeven_other:
  assumes run: "move_to_breakeven br s p fx = (r, p', fx')"
      and len: "length (split_colon s) = 2" and d: "split_colon smb \<noteq> split_colon s"
  shows "placements smb fx' = placements smb fx"
proof (cases "sl_order_id p")
  case None
  with run show ?thesis by (simp add: move_to_breakeven_def)
next
  case (Some sl)
  let ?fx1 = "fx\<lparr>trace := trace fx @ [CancelOrder sl]\<rparr>"
  have q1: "placements smb ?fx1 = placements smb fx" by (simp add: placements_def)
  show ?thesis
  proof (cases "cancel_order br (trace fx) sl")
    case E: (Some e)
    with Some run have "fx' = ?fx1" by (simp add: move_to_breakeven_def call_cancel_order_def)
    with q1 show ?thesis by simp
  next
    case N: None
    show ?thesis
    proof (cases "target_order_id p")
      case None
      with Some N run have "fx' = ?fx1"
        by (simp add: move_to_breakeven_def call_cancel_order_def)
      with q1 show ?thesis by simp
    next
      case T: (Some tg)
      let ?fx2 = "fx\<lparr>trace := trace fx @ [CancelOrder sl, CancelOrder tg]\<rparr>"
      have q2: "placements smb ?fx2 = placements smb fx" by (simp add: placements_def)
      show ?thesis
      proof (cases "cancel_order br (trace fx @ [CancelOrder sl]) tg")
        case E2: (Some e)
        with Some N T run have "fx' = ?fx2"
          by (simp add: move_to_breakeven_def call_cancel_order_def)
        with q2 show ?thesis by simp
      next
        case N2: None
        obtain r1 p1 fx3 where
          pe: "place_exit_orders br s (p\<lparr>stop_loss := entry_price p\<rparr>) ?fx2 = (r1, p1, fx3)"
          by (cases "place_exit_orders br s (p\<lparr>stop_loss := entry_price p\<rparr>) ?fx2")
        from place_exit_orders_other[OF pe len d] q2
        have q3: "placements smb fx3 = placements smb fx" by simp
        from Some N T N2 pe run have "fx' = fx3 \<or> fx' = logger (MovedSLToBreakeven s) fx3"
          by (cases r1) (simp_all add: move_to_breakeven_def call_cancel_order_def)
        with q3 show ?thesis by auto
      qed
    qed
  qed
qed

lemma move_to_breakeven_status:
  "move_to_breakeven br s p fx = (r, p', fx') \<Longrightarrow> status p' = status p"
  by (auto simp: move_to_breakeven_def call_cancel_order_def
           split: option.splits prod.splits dest!: place_exit_orders_status)

lemma manage_position_settled:
  assumes run: "manage_position br s p fx = (r, p', fx')"
      and st: "stop_loss p = entry_price p"
  shows "(\<exists>tr. trace fx' = trace fx @ tr \<and> filter is_PlaceOrder tr = []
               \<and> (sl_order_id p = None \<or> filter (\<lambda>c. \<exists>oid. c = CancelOrder oid) (take 2 tr) = []))
         \<and> stop_loss p' = entry_price p'
         \<and> (status p \<noteq> PENDING_ENTRY \<longrightarrow> status p' \<noteq> PENDING_ENTRY)"
proof (cases "status p = OPEN")
  case False
  with run have "p' = p" "fx' = fx" by (simp_all add: manage_position_def)
  with st show ?thesis by simp
next
  case True
  let ?fx1 = "fx\<lparr>trace := trace fx @ [GetQuote s]\<rparr>"
  show ?thesis
  proof (cases "get_quote br (trace fx) s")
    case (Inl e)
    with True run have "p' = p" "fx' = ?fx1"
      by (simp_all add: manage_position_def call_get_quote_def)
    with st True show ?thesis by simp
  next
    case (Inr last_price)
    from st have "\<not> breakeven_due p last_price" by (auto dest: breakeven_due_armed)
    with True Inr run have rc: "reconcile br s p ?fx1 = (r, p', fx')"
      by (simp add: manage_position_def call_get_quote_def)
    from reconcile_quiet[OF rc] obtain tr where
      q: "trace fx' = trace fx @ GetQuote s # tr" "filter is_PlaceOrder tr = []"
         "stop_loss p' = stop_loss p" "entry_price p' = entry_price p"
      by (auto simp: quiet_step_def)
    have c: "sl_order_id p = None \<or> (\<exists>oid. take 1 tr = [GetOrderStatus oid])"
    proof (cases "sl_order_id p")
      case None
      then show ?thesis by simp
    next
      case (Some sl)
      obtain r1 p1 fx2 where cs: "check_sl br s p ?fx1 = (r1, p1, fx2)"
        by (cases "check_sl br s p ?fx1")
      from cs Some have "\<exists>tr1. trace fx2 = trace ?fx1 @ GetOrderStatus sl # tr1"
        by (auto simp: check_sl_def call_defs logger_def
                 split: sum.splits if_splits option.splits prod.splits)
      then obtain tr1 where t1: "trace fx2 = trace fx @ GetQuote s # GetOrderStatus sl # tr1"
        by auto
      have "\<exists>tr2. trace fx' = trace fx2 @ tr2"
      proof (cases r1)
        case (Some e)
        with cs rc have "fx' = fx2" by (simp add: reconcile_def)
        then show ?thesis by simp
      next
        case None
        with cs rc have "check_target br s p1 fx2 = (r, p', fx')" by (simp add: reconcile_def)
        from check_target_quiet[OF this] show ?thesis by (auto simp: quiet_step_def)
      qed
      then obtain tr2 where "trace fx' = trace fx2 @ tr2" by blast
      with t1 q(1) have "tr = GetOrderStatus sl # tr1 @ tr2" by simp
      then show ?thesis by simp
    qed
    have c': "sl_order_id p = None
              \<or> filter (\<lambda>c. \<exists>oid. c = CancelOrder oid) (take 2 (GetQuote s # tr)) = []"
      using c by (cases tr) auto
    from reconcile_status[OF rc] True have s': "status p' \<noteq> PENDING_ENTRY" by simp
    from q c' s' st show ?thesis by simp
  qed
qed

lemma manage_position_ok:
  assumes run: "manage_position br s p fx = (r, p', fx')" and ok: "entry_ok smb s p"
  shows "placements smb fx' = placements smb fx \<and> entry_ok smb s p'"
proof (cases "s = smb")
  case True
  with ok have st: "stop_loss p = entry_price p" and np: "status p \<noteq> PENDING_ENTRY"
    and len: "length (split_colon s) = 2"
    by (auto simp: entry_ok_def)
  from manage_position_settled[OF run st] np obtain tr where
    "trace fx' = trace fx @ tr" "filter is_PlaceOrder tr = []"
    "stop_loss p' = entry_price p'" "status p' \<noteq> PENDING_ENTRY"
    by auto
  with len show ?thesis by (simp add: placements_quiet entry_ok_def)
next
  case False
  with ok have len: "length (split_colon s) = 2" by (simp add: entry_ok_def)
  from False have d: "split_colon smb \<noteq> split_colon s" by (auto dest: split_colon_inj)
  have ok': "entry_ok smb s x" for x using False len by (simp add: entry_ok_def)
  have same: "placements smb fx' = placements smb fx"
  proof (cases "status p = OPEN")
    case F: False
    with run show ?thesis by (simp add: manage_position_def)
  next
    case True
    let ?fx1 = "fx\<lparr>trace := trace fx @ [GetQuote s]\<rparr>"
    have q1: "placements smb ?fx1 = placements smb fx" by (simp add: placements_def)
    show ?thesis
    proof (cases "get_quote br (trace fx) s")
      case (Inl e)
      with True run have "fx' = ?fx1" by (simp add: manage_position_def call_get_quote_def)
      with q1 show ?thesis by simp
    next
      case (Inr last_price)
      obtain r1 p1 fx2 where m:
        "(if breakeven_due p last_price then move_to_breakeven br s p ?fx1 else (None, p, ?fx1))
         = (r1, p1, fx2)"
        by (cases "if breakeven_due p last_price then move_to_breakeven br s p ?fx1
                   else (None, p, ?fx1)")
      have q2: "placements smb fx2 = placements smb fx"
      proof (cases "breakeven_due p last_price")
        case T: True
        with m have "move_to_breakeven br s p ?fx1 = (r1, p1, fx2)" by simp
        from move_to_breakeven_other[OF this len d] q1 show ?thesis by simp
      next
        case F: False
        with m have "fx2 = ?fx1" by simp
        with q1 show ?thesis by simp
      qed
      show ?thesis
      proof (cases r1)
        case (Some e)
        with True Inr m run have "fx' = fx2"
          by (simp add: manage_position_def call_get_quote_def)
        with q2 show ?thesis by simp
      next
        case None
        with True Inr m run have "reconcile br s p1 fx2 = (r, p', fx')"
          by (simp add: manage_position_def call_get_quote_def)
        from reconcile_placements[OF this, of smb] q2 show ?thesis by simp
      qed
    qed
  qed
  with ok' show ?thesis by simp
qed

lemma display_row_ok:
  assumes run: "display_row br s p fx = (r, p', fx')" and ok: "entry_ok smb s p"
  shows "placements smb fx' = placements smb fx \<and> entry_ok smb s p'"
proof -
  from run have "p' = p" and "fx' = fx\<lparr>trace := trace fx @ [GetQuote s]\<rparr>"
    by (auto simp: display_row_def call_get_quote_def split: sum.splits if_splits)
  with ok show ?thesis by (simp add: placements_def)
qed

lemma for_items_ok:
  assumes body: "\<And>s p fx r p' fx'. body s p fx = (r, p', fx') \<Longrightarrow> entry_ok smb s p \<Longrightarrow>
                   placements smb fx' = placements smb fx \<and> entry_ok smb s p'"
  shows "for_items body ps fx = (r, ps', fx') \<Longrightarrow> \<forall>(s, p)\<in>set ps. entry_ok smb s p \<Longrightarrow>
         placements smb fx' = placements smb fx \<and> (\<forall>(s, p)\<in>set ps'. entry_ok smb s p)"
proof (induction ps arbitrary: fx r ps' fx')
  case Nil
  then show ?case by simp
next
  case (Cons a ps)
  obtain s p where a: "a = (s, p)" by (cases a)
  obtain r1 p1 fx1 where b: "body s p fx = (r1, p1, fx1)" by (cases "body s p fx")
  from Cons.prems(2) a have oka: "entry_ok smb s p" and okr: "\<forall>(s, p)\<in>set ps. entry_ok smb s p"
    by simp_all
  from body[OF b oka] have h: "placements smb fx1 = placements smb fx" "entry_ok smb s p1"
    by simp_all
  show ?case
  proof (cases r1)
    case (Some e)
    with Cons.prems(1) a b have "ps' = (s, p1) # ps" "fx' = fx1" by simp_all
    with h okr show ?thesis by simp
  next
    case None
    obtain r2 rest fx2 where c: "for_items body ps fx1 = (r2, rest, fx2)"
      by (cases "for_items body ps fx1")
    from Cons.prems(1) a b None c have e: "ps' = (s, p1) # rest" "fx' = fx2" by simp_all
    from Cons.IH[OF c okr] h e show ?thesis by simp
  qed
qed

lemma for_items_closed:
  assumes body: "\<And>s p fx r p' fx'. body s p fx = (r, p', fx') \<Longrightarrow> entry_ok smb s p \<Longrightarrow>
                   placements smb fx' = placements smb fx \<and> entry_ok smb s p'"
      and run: "for_items body ps fx = (r, ps', fx')" and s: "closed_for smb ps"
  shows "placements smb fx' = placements smb fx \<and> closed_for smb ps'
         \<and> map fst ps' = map fst ps"
proof -
  from s have k: "smb \<in> set (map fst ps) \<or> length (split_colon smb) \<noteq> 2"
    and ok: "\<forall>(s, p)\<in>set ps. entry_ok smb s p"
    by (simp_all add: closed_for_def)
  have "placements smb fx' = placements smb fx \<and> (\<forall>(s, p)\<in>set ps'. entry_ok smb s p)"
    using run ok by (rule for_items_ok[rotated]) (rule body)
  moreover note for_items_keys[OF run]
  ultimately show ?thesis using k by (simp add: closed_for_def)
qed

lemma set_update_subset: "set (AList.update k v ps) \<subseteq> insert (k, v) (set ps)"
  by (induction ps) auto

lemma closed_for_update:
  assumes s: "closed_for smb ps" and ne: "s \<noteq> smb" and len: "length (split_colon s) = 2"
  shows "closed_for smb (AList.update s p ps)"
proof -
  from s have k: "smb \<in> set (map fst ps) \<or> length (split_colon smb) \<noteq> 2"
    and ok: "\<forall>(k, v)\<in>set ps. entry_ok smb k v"
    by (simp_all add: closed_for_def)
  from ne len have new: "entry_ok smb s p" by (simp add: entry_ok_def)
  have "entry_ok smb k v" if "(k, v) \<in> set (AList.update s p ps)" for k v
  proof -
    from that set_update_subset[of s p ps] have "(k, v) = (s, p) \<or> (k, v) \<in> set ps" by auto
    with new ok show ?thesis by auto
  qed
  moreover from k update_keys[of s p ps]
  have "smb \<in> set (map fst (AList.update s p ps)) \<or> length (split_colon smb) \<noteq> 2"
    by blast
  ultimately show ?thesis by (auto simp: closed_for_def)
qed

lemma strategy_place_order_closed:
  assumes run: "strategy_place_order br s qty tt en sl tg pt ps fx = (r, ps', fx')"
      and side: "s \<noteq> smb \<or> length (split_colon smb) \<noteq> 2" and st: "closed_for smb ps"
  shows "placements smb fx' = placements smb fx \<and> closed_for smb ps'
         \<and> set (map fst ps) \<subseteq> set (map fst ps')"
proof (cases "\<exists>exch name. split_colon s = [exch, name]")
  case False
  with run have "ps' = ps" "fx' = fx"
    by (auto simp: strategy_place_order_def split: list.splits)
  with st show ?thesis by simp
next
  case True
  then obtain exch name where sp: "split_colon s = [exch, name]" by blast
  then have len: "length (split_colon s) = 2" by simp
  with side have ne: "s \<noteq> smb" by auto
  then have "split_colon smb \<noteq> split_colon s" by (auto dest: split_colon_inj)
  with sp have d: "split_colon smb \<noteq> [exch, name]" by simp
  show ?thesis
  proof (cases "exch \<in> set (exchanges br)")
    case False
    with sp run have "ps' = ps" "fx' = fx" by (simp_all add: strategy_place_order_def)
    with st show ?thesis by simp
  next
    case T: True
    let ?req = "\<lparr>symbol = name, exchange = exch, transaction_type = tt, quantity = qty,
                 product_type = MARGIN, order_type = STOP, price = en, stop_price = Some en\<rparr>"
    let ?fx1 = "fx\<lparr>trace := trace fx @ [PlaceOrder ?req]\<rparr>"
    from d have q: "placements smb ?fx1 = placements smb fx" by (simp add: placements_def)
    show ?thesis
    proof (cases "place_order br (trace fx) ?req")
      case (Inl e)
      with sp T run have "ps' = ps" "fx' = ?fx1"
        by (simp_all add: strategy_place_order_def call_place_order_def)
      with q st show ?thesis by simp
    next
      case (Inr resp)
      show ?thesis
      proof (cases "resp_status resp = ''ok''")
        case F: False
        with Inr sp T run have "ps' = ps" "fx' = logger (FailedToPlace s (message resp)) ?fx1"
          by (simp_all add: strategy_place_order_def call_place_order_def)
        with q st show ?thesis by simp
      next
        case ok: True
        with Inr sp T run have "\<exists>p. ps' = AList.update s p ps"
          and "fx' = logger (OrderPlaced s (resp_order_id resp)) ?fx1"
          by (auto simp: strategy_place_order_def call_place_order_def)
        then obtain p where e: "ps' = AList.update s p ps"
          "fx' = logger (OrderPlaced s (resp_order_id resp)) ?fx1" by blast
        from update_keys[of s p ps] have "set (map fst ps) \<subseteq> set (map fst ps')"
          unfolding e by blast
        with q closed_for_update[OF st ne len, of p] show ?thesis unfolding e by simp
      qed
    qed
  qed
qed

lemma check_long_cases:
  assumes a: "check_long_entry_conditions br cfg df s ps fx = (r, ps', fx')"
  shows "(ps' = ps \<and> fx' = fx)
         \<or> (\<exists>en sl tg m. strategy_place_order br s 1 BUY en sl tg LONG ps (logger m fx)
                            = (r, ps', fx'))"
proof (cases "length df < 2 \<or> \<not> last (is_bullish_fvg df)")
  case True
  with a show ?thesis by (auto simp: check_long_entry_conditions_def Let_def split: if_splits)
next
  case False
  show ?thesis
  proof (cases "long_filter cfg df")
    case (Inl e)
    with False a show ?thesis by (auto simp: check_long_entry_conditions_def Let_def)
  next
    case (Inr b)
    show ?thesis
    proof (cases b)
      case True
      with False Inr a have "\<exists>en sl tg m.
        strategy_place_order br s 1 BUY en sl tg LONG ps (logger m fx) = (r, ps', fx')"
        unfolding check_long_entry_conditions_def Let_def by auto
      then show ?thesis by simp
    next
      case F: False
      with False Inr a show ?thesis by (auto simp: check_long_entry_conditions_def Let_def)
    qed
  qed
qed

lemma check_short_cases:
  assumes a: "check_short_entry_conditions br cfg df s ps fx = (r, ps', fx')"
  shows "(ps' = ps \<and> fx' = fx)
         \<or> (\<exists>en sl tg m. strategy_place_order br s 1 SELL en sl tg SHORT ps (logger m fx)
                            = (r, ps', fx'))"
proof (cases "length df < 2 \<or> \<not> last (is_bearish_fvg df)")
  case True
  with a show ?thesis by (auto simp: check_short_entry_conditions_def Let_def split: if_splits)
next
  case False
  show ?thesis
  proof (cases "short_filter cfg df")
    case (Inl e)
    with False a show ?thesis by (auto simp: check_short_entry_conditions_def Let_def)
  next
    case (Inr b)
    show ?thesis
    proof (cases b)
      case True
      with False Inr a have "\<exists>en sl tg m.
        strategy_place_order br s 1 SELL en sl tg SHORT ps (logger m fx) = (r, ps', fx')"
        unfolding check_short_entry_conditions_def Let_def by auto
      then show ?thesis by simp
    next
      case F: False
      with False Inr a show ?thesis by (auto simp: check_short_entry_conditions_def Let_def)
    qed
  qed
qed

lemma check_long_closed:
  assumes a: "check_long_entry_conditions br cfg df s ps fx = (r, ps', fx')"
      and side: "s \<noteq> smb \<or> length (split_colon smb) \<noteq> 2" and st: "closed_for smb ps"
  shows "placements smb fx' = placements smb fx \<and> closed_for smb ps'
         \<and> set (map fst ps) \<subseteq> set (map fst ps')"
proof -
  from check_long_cases[OF a] show ?thesis
  proof
    assume "ps' = ps \<and> fx' = fx"
    with st show ?thesis by simp
  next
    assume "\<exists>en sl tg m. strategy_place_order br s 1 BUY en sl tg LONG ps (logger m fx)
                           = (r, ps', fx')"
    then obtain en sl tg m where
      "strategy_place_order br s 1 BUY en sl tg LONG ps (logger m fx) = (r, ps', fx')" by blast
    from strategy_place_order_closed[OF this side st] show ?thesis by simp
  qed
qed

lemma check_short_closed:
  assumes a: "check_short_entry_conditions br cfg df s ps fx = (r, ps', fx')"
      and side: "s \<noteq> smb \<or> length (split_colon smb) \<noteq> 2" and st: "closed_for smb ps"
  shows "placements smb fx' = placements smb fx \<and> closed_for smb ps'
         \<and> set (map fst ps) \<subseteq> set (map fst ps')"
proof -
  from check_short_cases[OF a] show ?thesis
  proof
    assume "ps' = ps \<and> fx' = fx"
    with st show ?thesis by simp
  next
    assume "\<exists>en sl tg m. strategy_place_order br s 1 SELL en sl tg SHORT ps (logger m fx)
                           = (r, ps', fx')"
    then obtain en sl tg m where
      "strategy_place_order br s 1 SELL en sl tg SHORT ps (logger m fx) = (r, ps', fx')" by blast
    from strategy_place_order_closed[OF this side st] show ?thesis by simp
  qed
qed

lemma analyze_try_closed:
  assumes run: "analyze_try br cfg s ps fx = (r, ps', fx')"
      and side: "s \<noteq> smb \<or> length (split_colon smb) \<noteq> 2" and st: "closed_for smb ps"
  shows "placements smb fx' = placements smb fx \<and> closed_for smb ps'
         \<and> set (map fst ps) \<subseteq> set (map fst ps')"
proof -
  let ?fx1 = "fx\<lparr>trace := trace fx @ [GetHistory s]\<rparr>"
  have q: "placements smb ?fx1 = placements smb fx" by (simp add: placements_def)
  show ?thesis
  proof (cases "get_history br (trace fx) s")
    case (Inl e)
    with run have "ps' = ps" "fx' = ?fx1" by (simp_all add: analyze_try_def call_get_history_def)
    with q st show ?thesis by simp
  next
    case (Inr df)
    show ?thesis
    proof (cases "df = [] \<or> indicators cfg df \<noteq> None")
      case True
      with Inr run have "ps' = ps" "fx' = ?fx1"
        by (auto simp: analyze_try_def call_get_history_def split: option.splits if_splits)
      with q st show ?thesis by simp
    next
      case False
      obtain r1 ps1 fx2 where
        l: "check_long_entry_conditions br cfg df s ps ?fx1 = (r1, ps1, fx2)"
        by (cases "check_long_entry_conditions br cfg df s ps ?fx1")
      from check_long_closed[OF l side st] q
      have h1: "placements smb fx2 = placements smb fx" "closed_for smb ps1"
        "set (map fst ps) \<subseteq> set (map fst ps1)" by simp_all
      show ?thesis
      proof (cases r1)
        case (Some e)
        with Inr False l run have "ps' = ps1" "fx' = fx2"
          by (auto simp: analyze_try_def call_get_history_def)
        with h1 show ?thesis by simp
      next
        case None
        with Inr False l run
        have s: "check_short_entry_conditions br cfg df s ps1 fx2 = (r, ps', fx')"
          by (auto simp: analyze_try_def call_get_history_def)
        from check_short_closed[OF s side h1(2)] h1(1) h1(3) show ?thesis by auto
      qed
    qed
  qed
qed

lemma analyze_symbol_closed:
  assumes run: "analyze_symbol br cfg s ps fx = (r, ps', fx')" and st: "closed_for smb ps"
  shows "placements smb fx' = placements smb fx \<and> closed_for smb ps'
         \<and> set (map fst ps) \<subseteq> set (map fst ps')"
proof (cases "s \<in> set (map fst ps)")
  case True
  with run have "ps' = ps" "fx' = fx" by (simp_all add: analyze_symbol_def)
  with st show ?thesis by simp
next
  case False
  from st have "smb \<in> set (map fst ps) \<or> length (split_colon smb) \<noteq> 2"
    by (simp add: closed_for_def)
  with False have side: "s \<noteq> smb \<or> length (split_colon smb) \<noteq> 2" by auto
  obtain r1 ps1 fx1 where t: "analyze_try br cfg s ps fx = (r1, ps1, fx1)"
    by (cases "analyze_try br cfg s ps fx")
  note h = analyze_try_closed[OF t side st]
  show ?thesis
  proof (cases r1)
    case None
    with run False t have "ps' = ps1" "fx' = fx1" by (simp_all add: analyze_symbol_def)
    with h show ?thesis by simp
  next
    case (Some e)
    show ?thesis
    proof (cases "is_Exception e")
      case True
      with Some run False t have "ps' = ps1" "fx' = logger (ErrorProcessing s e) fx1"
        by (simp_all add: analyze_symbol_def)
      with h show ?thesis by simp
    next
      case F: False
      with Some run False t have "ps' = ps1" "fx' = fx1" by (simp_all add: analyze_symbol_def)
      with h show ?thesis by simp
    qed
  qed
qed

lemma analyze_loop_closed:
  "analyze_loop br cfg ss ps fx = (r, ps', fx') \<Longrightarrow> closed_for smb ps \<Longrightarrow>
     placements smb fx' = placements smb fx \<and> closed_for smb ps'
     \<and> set (map fst ps) \<subseteq> set (map fst ps')"
proof (induction ss arbitrary: ps fx)
  case Nil
  then show ?case by simp
next
  case (Cons s ss)
  obtain r1 ps1 fx1 where t: "analyze_symbol br cfg s ps fx = (r1, ps1, fx1)"
    by (cases "analyze_symbol br cfg s ps fx")
  from analyze_symbol_closed[OF t Cons.prems(2)]
  have h: "placements smb fx1 = placements smb fx" "closed_for smb ps1"
    "set (map fst ps) \<subseteq> set (map fst ps1)" by simp_all
  show ?case
  proof (cases r1)
    case (Some e)
    with Cons.prems(1) t have "ps' = ps1" "fx' = fx1" by simp_all
    with h show ?thesis by simp
  next
    case None
    with Cons.prems(1) t have "analyze_loop br cfg ss ps1 fx1 = (r, ps', fx')" by simp
    from Cons.IH[OF this h(2)] h(1) h(3) show ?thesis by auto
  qed
qed

lemma cycle_closed:
  assumes run: "cycle br cfg ps fx = (r, ps', fx')" and st: "closed_for smb ps"
  shows "placements smb fx' = placements smb fx \<and> closed_for smb ps'
         \<and> set (map fst ps) \<subseteq> set (map fst ps')"
proof -
  obtain r1 ps1 fx1 where a: "check_open_orders br ps fx = (r1, ps1, fx1)"
    by (cases "check_open_orders br ps fx")
  have "placements smb fx1 = placements smb fx \<and> closed_for smb ps1
        \<and> map fst ps1 = map fst ps"
    by (rule for_items_closed[where body = "check_open_order br",
              OF check_open_order_ok a[unfolded check_open_orders_def] st])
  then have A: "placements smb fx1 = placements smb fx" "closed_for smb ps1"
    "set (map fst ps) \<subseteq> set (map fst ps1)" by simp_all
  show ?thesis
  proof (cases r1)
    case (Some e)
    with a run have "ps' = ps1" "fx' = fx1" by (simp_all add: cycle_def)
    with A show ?thesis by simp
  next
    case None
    obtain r2 ps2 fx2 where b: "analyze_and_trade br cfg ps1 fx1 = (r2, ps2, fx2)"
      by (cases "analyze_and_trade br cfg ps1 fx1")
    have "placements smb fx2 = placements smb (logger AnalyzingFVG fx1) \<and> closed_for smb ps2
          \<and> set (map fst ps1) \<subseteq> set (map fst ps2)"
      by (rule analyze_loop_closed[OF b[unfolded analyze_and_trade_def] A(2)])
    with A have B: "placements smb fx2 = placements smb fx" "closed_for smb ps2"
      "set (map fst ps) \<subseteq> set (map fst ps2)" by auto
    show ?thesis
    proof (cases r2)
      case (Some e)
      with a None b run have "ps' = ps2" "fx' = fx2" by (simp_all add: cycle_def)
      with B show ?thesis by simp
    next
      case None2: None
      obtain r3 ps3 fx3 where c: "manage_positions br ps2 fx2 = (r3, ps3, fx3)"
        by (cases "manage_positions br ps2 fx2")
      have "placements smb fx3 = placements smb fx2 \<and> closed_for smb ps3
            \<and> map fst ps3 = map fst ps2"
        by (rule for_items_closed[where body = "manage_position br",
                  OF manage_position_ok c[unfolded manage_positions_def] B(2)])
      with B have C: "placements smb fx3 = placements smb fx" "closed_for smb ps3"
        "set (map fst ps) \<subseteq> set (map fst ps3)" by simp_all
      show ?thesis
      proof (cases r3)
        case (Some e)
        with a None b None2 c run have "ps' = ps3" "fx' = fx3" by (simp_all add: cycle_def)
        with C show ?thesis by simp
      next
        case None3: None
        with a None b None2 c run have d: "display_table br ps3 fx3 = (r, ps', fx')"
          by (simp add: cycle_def)
        have "placements smb fx' = placements smb fx3 \<and> closed_for smb ps'
              \<and> map fst ps' = map fst ps3"
          by (rule for_items_closed[where body = "display_row br",
                    OF display_row_ok d[unfolded display_table_def] C(2)])
        with C show ?thesis by simp
      qed
    qed
  qed
qed

lemma run_cycles_closed:
  "run_cycles br cfg n ps fx = (r, ps', fx') \<Longrightarrow> closed_for smb ps \<Longrightarrow>
     placements smb fx' = placements smb fx \<and> closed_for smb ps'
     \<and> set (map fst ps) \<subseteq> set (map fst ps')"
proof (induction n arbitrary: ps fx)
  case 0
  then show ?case by simp
next
  case (Suc n)
  obtain r1 ps1 fx1 where c: "cycle br cfg ps fx = (r1, ps1, fx1)"
    by (cases "cycle br cfg ps fx")
  from cycle_closed[OF c Suc.prems(2)]
  have h: "placements smb fx1 = placements smb fx" "closed_for smb ps1"
    "set (map fst ps) \<subseteq> set (map fst ps1)" by simp_all
  show ?case
  proof (cases r1)
    case (Some e)
    with Suc.prems(1) c have "ps' = ps1" "fx' = fx1" by simp_all
    with h show ?thesis by simp
  next
    case None
    with Suc.prems(1) c have "run_cycles br cfg n ps1 fx1 = (r, ps', fx')" by simp
    from Suc.IH[OF this h(2)] h(1) h(3) show ?thesis by auto
  qed
qed

lemma run_cycles_settled:
  assumes run: "run_cycles br cfg n ps fx = (r, ps', fx')" and st: "settled smb ps"
  shows "placements smb fx' = placements smb fx \<and> settled smb ps'"
proof -
  from st have k: "smb \<in> set (map fst ps)" and c: "closed_for smb ps"
    by (simp_all add: settled_def closed_for_def)
  from run_cycles_closed[OF run c] k show ?thesis
    by (auto simp: settled_def closed_for_def)
qed

lemma run_two_part_keys: "two_part_keys (fst (snd (run br cfg n)))"
proof -
  obtain r ps' fx' where
    f: "run_cycles br cfg n [] (logger RunningFVG no_effects) = (r, ps', fx')"
    by (cases "run_cycles br cfg n [] (logger RunningFVG no_effects)")
  have "closed_for [] []" by (simp add: closed_for_def)
  from run_cycles_closed[OF f this] have "closed_for [] ps'" by simp
  then have "two_part_keys ps'" by (auto simp: closed_for_def entry_ok_def two_part_keys_def)
  with f show ?thesis by (simp add: run_def)
qed

subsection \<open>The calls of one step of \<open>manage_positions\<close>\<close>

lemma check_sl_calls:
  "check_sl br s p fx = (r, p', fx') \<Longrightarrow>
     \<exists>tr. trace fx' = trace fx @ tr \<and> (tr = [] \<or> (\<exists>oid tr'. tr = GetOrderStatus oid # tr'))"
  by (auto simp: check_sl_def call_defs logger_def
           split: option.splits sum.splits if_splits prod.splits)

lemma check_target_calls:
  "check_target br s p fx = (r, p', fx') \<Longrightarrow>
     \<exists>tr. trace fx' = trace fx @ tr \<and> (tr = [] \<or> (\<exists>oid tr'. tr = GetOrderStatus oid # tr'))"
  by (auto simp: check_target_def call_defs logger_def
           split: option.splits sum.splits if_splits prod.splits)

lemma reconcile_calls:
  assumes run: "reconcile br s p fx = (r, p', fx')"
  shows "\<exists>tr. trace fx' = trace fx @ tr \<and> filter is_PlaceOrder tr = []
              \<and> (tr = [] \<or> (\<exists>oid tr'. tr = GetOrderStatus oid # tr'))
              \<and> stop_loss p' = stop_loss p \<and> entry_price p' = entry_price p"
proof -
  from reconcile_quiet[OF run] obtain tr where
    q: "trace fx' = trace fx @ tr" "filter is_PlaceOrder tr = []"
       "stop_loss p' = stop_loss p" "entry_price p' = entry_price p"
    by (auto simp: quiet_step_def)
  obtain r1 p1 fx1 where cs: "check_sl br s p fx = (r1, p1, fx1)"
    by (cases "check_sl br s p fx")
  from check_sl_calls[OF cs] obtain tr1 where
    t1: "trace fx1 = trace fx @ tr1" "tr1 = [] \<or> (\<exists>oid tr'. tr1 = GetOrderStatus oid # tr')"
    by blast
  have "\<exists>tr2. trace fx' = trace fx1 @ tr2
             \<and> (tr1 = [] \<longrightarrow> tr2 = [] \<or> (\<exists>oid tr'. tr2 = GetOrderStatus oid # tr'))"
  proof (cases r1)
    case (Some e)
    with cs run have "fx' = fx1" by (simp add: reconcile_def)
    then show ?thesis by simp
  next
    case None
    with cs run have "check_target br s p1 fx1 = (r, p', fx')" by (simp add: reconcile_def)
    from check_target_calls[OF this] show ?thesis by blast
  qed
  then obtain tr2 where
    t2: "trace fx' = trace fx1 @ tr2"
        "tr1 = [] \<longrightarrow> tr2 = [] \<or> (\<exists>oid tr'. tr2 = GetOrderStatus oid # tr')"
    by blast
  from t1(1) t2(1) q(1) have "tr = tr1 @ tr2" by simp
  with t1(2) t2(2) have "tr = [] \<or> (\<exists>oid tr'. tr = GetOrderStatus oid # tr')" by auto
  with q show ?thesis by blast
qed

lemma place_exit_orders_calls:
  "place_exit_orders br s p fx = (r, p', fx') \<Longrightarrow>
     \<exists>tr. trace fx' = trace fx @ tr \<and> length tr \<le> 2"
  by (auto simp: place_exit_orders_def call_place_order_def Let_def
           split: sum.splits prod.splits if_splits)

lemma move_to_breakeven_calls:
  assumes run: "move_to_breakeven br s p fx = (r, p', fx')"
  shows "\<exists>tr. trace fx' = trace fx @ tr \<and> length (filter is_PlaceOrder tr) \<le> 2
              \<and> (filter is_PlaceOrder tr \<noteq> [] \<longrightarrow> stop_loss p' = entry_price p')
              \<and> (r = None \<longrightarrow> stop_loss p' = entry_price p')"
proof (cases "sl_order_id p")
  case None
  with run have "fx' = fx" "r \<noteq> None" by (auto simp: move_to_breakeven_def)
  then show ?thesis by auto
next
  case (Some sl)
  let ?fx1 = "fx\<lparr>trace := trace fx @ [CancelOrder sl]\<rparr>"
  show ?thesis
  proof (cases "cancel_order br (trace fx) sl")
    case E: (Some e)
    with Some run have "fx' = ?fx1" "r = Some e"
      by (simp_all add: move_to_breakeven_def call_cancel_order_def)
    then show ?thesis by auto
  next
    case N: None
    show ?thesis
    proof (cases "target_order_id p")
      case None
      with Some N run have "fx' = ?fx1" "r \<noteq> None"
        by (auto simp: move_to_breakeven_def call_cancel_order_def)
      then show ?thesis by auto
    next
      case T: (Some tg)
      let ?fx2 = "fx\<lparr>trace := trace fx @ [CancelOrder sl, CancelOrder tg]\<rparr>"
      show ?thesis
      proof (cases "cancel_order br (trace fx @ [CancelOrder sl]) tg")
        case E2: (Some e)
        with Some N T run have "fx' = ?fx2" "r = Some e"
          by (simp_all add: move_to_breakeven_def call_cancel_order_def)
        then show ?thesis by auto
      next
        case N2: None
        let ?p1 = "p\<lparr>stop_loss := entry_price p\<rparr>"
        obtain r1 p1 fx3 where
          pe: "place_exit_orders br s ?p1 ?fx2 = (r1, p1, fx3)"
          by (cases "place_exit_orders br s ?p1 ?fx2")
        from place_exit_orders_keeps[OF pe, of s] have k: "stop_loss p1 = entry_price p1" by simp
        from place_exit_orders_calls[OF pe] obtain tr where
          t: "trace fx3 = trace fx @ [CancelOrder sl, CancelOrder tg] @ tr" "length tr \<le> 2"
          by auto
        have "length (filter is_PlaceOrder tr) \<le> length tr" by (rule length_filter_le)
        with t(2) have l: "length (filter is_PlaceOrder tr) \<le> 2" by linarith
        from Some N T N2 pe run
        have "p' = p1" and "fx' = fx3 \<or> fx' = logger (MovedSLToBreakeven s) fx3"
          by (cases r1; simp add: move_to_breakeven_def call_cancel_order_def)+
        then have "p' = p1" and "trace fx' = trace fx @ [CancelOrder sl, CancelOrder tg] @ tr"
          using t(1) by (auto simp: logger_def)
        with k l show ?thesis by auto
      qed
    qed
  qed
qed

lemma manage_position_calls:
  assumes run: "manage_position br s p fx = (r, p', fx')"
  shows "length (filter is_PlaceOrder (new_calls fx fx')) \<le> 2
       \<and> (filter is_PlaceOrder (new_calls fx fx') \<noteq> [] \<longrightarrow> stop_loss p' = entry_price p')
       \<and> (r = None \<and> (\<exists>oid. take 2 (new_calls fx fx') = [GetQuote s, CancelOrder oid])
            \<longrightarrow> stop_loss p' = entry_price p')
       \<and> (stop_loss p = entry_price p \<longrightarrow>
            filter is_PlaceOrder (new_calls fx fx') = []
            \<and> (\<forall>oid. take 2 (new_calls fx fx') \<noteq> [GetQuote s, CancelOrder oid])
            \<and> stop_loss p' = entry_price p')"
proof (cases "status p = OPEN")
  case False
  with run have "p' = p" "fx' = fx" by (simp_all add: manage_position_def)
  then show ?thesis by (simp add: new_calls_def)
next
  case True
  let ?fx1 = "fx\<lparr>trace := trace fx @ [GetQuote s]\<rparr>"
  show ?thesis
  proof (cases "get_quote br (trace fx) s")
    case (Inl e)
    with True run have "p' = p" "fx' = ?fx1"
      by (simp_all add: manage_position_def call_get_quote_def)
    then show ?thesis by (simp add: new_calls_def)
  next
    case (Inr last_price)
    show ?thesis
    proof (cases "breakeven_due p last_price")
      case F: False
      with True Inr run have rc: "reconcile br s p ?fx1 = (r, p', fx')"
        by (simp add: manage_position_def call_get_quote_def)
      from reconcile_calls[OF rc] obtain tr where
        q: "trace fx' = trace fx @ GetQuote s # tr" "filter is_PlaceOrder tr = []"
           "tr = [] \<or> (\<exists>oid tr'. tr = GetOrderStatus oid # tr')"
           "stop_loss p' = stop_loss p" "entry_price p' = entry_price p"
        by auto
      from q(1) have n: "new_calls fx fx' = GetQuote s # tr" by (simp add: new_calls_def)
      from q(3) have "\<forall>oid. take 2 (GetQuote s # tr) \<noteq> [GetQuote s, CancelOrder oid]" by auto
      with q(2,4,5) show ?thesis unfolding n by simp
    next
      case T: True
      then have ne: "stop_loss p \<noteq> entry_price p" by (rule breakeven_due_armed)
      obtain r1 p1 fx2 where m: "move_to_breakeven br s p ?fx1 = (r1, p1, fx2)"
        by (cases "move_to_breakeven br s p ?fx1")
      from move_to_breakeven_calls[OF m] obtain tr1 where
        t1: "trace fx2 = trace fx @ GetQuote s # tr1" "length (filter is_PlaceOrder tr1) \<le> 2"
            "filter is_PlaceOrder tr1 \<noteq> [] \<longrightarrow> stop_loss p1 = entry_price p1"
            "r1 = None \<longrightarrow> stop_loss p1 = entry_price p1"
        by auto
      have "\<exists>tr2. trace fx' = trace fx2 @ tr2 \<and> filter is_PlaceOrder tr2 = []
                  \<and> stop_loss p' = stop_loss p1 \<and> entry_price p' = entry_price p1
                  \<and> (r = None \<longrightarrow> r1 = None)"
      proof (cases r1)
        case (Some e)
        with True Inr T m run have "p' = p1" "fx' = fx2" "r = Some e"
          by (simp_all add: manage_position_def call_get_quote_def)
        then show ?thesis by simp
      next
        case None
        with True Inr T m run have "reconcile br s p1 fx2 = (r, p', fx')"
          by (simp add: manage_position_def call_get_quote_def)
        from reconcile_calls[OF this] None show ?thesis by blast
      qed
      then obtain tr2 where
        t2: "trace fx' = trace fx2 @ tr2" "filter is_PlaceOrder tr2 = []"
            "stop_loss p' = stop_loss p1" "entry_price p' = entry_price p1"
            "r = None \<longrightarrow> r1 = None"
        by blast
      from t1(1) t2(1) have n: "new_calls fx fx' = GetQuote s # tr1 @ tr2"
        by (simp add: new_calls_def)
      from t1(2-4) t2(2-5) ne show ?thesis unfolding n by auto
    qed
  qed
qed

text \<open>
  Claim C5. Over any number of cycles of \<open>run\<close>, with any gateway (any sequence of quotes)
  and any analysis, the breakeven adjustment of a symbol's position happens at most once.
  In the log: starting from any registry with distinct keys the number of reported
  adjustments grows by at most one, a fresh run reports at most one, and once the stop of
  the symbol's position is at its entry price no later cycle reports another. In the
  trace of gateway calls: once the position of the symbol is filled and has its stop at
  its entry price, no later cycle places an order for the symbol, and the position stays
  that way (the keys of the registry have an exchange and a name, as they always have in
  a run). Step by step, for one position in \<open>manage_positions\<close>: a step places at most
  one pair of orders; a step that places an order, or that cancels right after the quote
  and returns, leaves the stop at the entry price; and a step on a position whose stop is
  at its entry price places nothing, does not cancel right after the quote, and leaves
  the stop there.
\<close>

theorem breakeven_at_most_once:
  assumes "run_cycles br cfg n ps fx = (r, ps', fx')"
  shows "(distinct (map fst ps) \<longrightarrow> breakevens smb fx' \<le> breakevens smb fx + 1)
       \<and> (smb \<in> set (map fst ps)
            \<and> (\<forall>pos. (smb, pos) \<in> set ps \<longrightarrow> stop_loss pos = entry_price pos)
          \<longrightarrow> breakevens smb fx' \<le> breakevens smb fx)
       \<and> breakevens smb (snd (snd (run br cfg n))) \<le> 1
       \<and> (settled smb ps \<longrightarrow> placements smb fx' = placements smb fx \<and> settled smb ps')
       \<and> two_part_keys (fst (snd (run br cfg n)))
       \<and> (\<forall>pos fx0 r1 pos1 fx1. manage_position br smb pos fx0 = (r1, pos1, fx1) \<longrightarrow>
            length (filter is_PlaceOrder (new_calls fx0 fx1)) \<le> 2
            \<and> (filter is_PlaceOrder (new_calls fx0 fx1) \<noteq> []
                 \<longrightarrow> stop_loss pos1 = entry_price pos1)
            \<and> (r1 = None \<and> (\<exists>oid. take 2 (new_calls fx0 fx1) = [GetQuote smb, CancelOrder oid])
                 \<longrightarrow> stop_loss pos1 = entry_price pos1)
            \<and> (stop_loss pos = entry_price pos \<longrightarrow>
                 filter is_PlaceOrder (new_calls fx0 fx1) = []
                 \<and> (\<forall>oid. take 2 (new_calls fx0 fx1) \<noteq> [GetQuote smb, CancelOrder oid])
                 \<and> stop_loss pos1 = entry_price pos1))"
proof -
  note le = run_cycles_budget[OF assms, of smb]
  have c1: "distinct (map fst ps) \<longrightarrow> breakevens smb fx' \<le> breakevens smb fx + 1"
  proof
    assume "distinct (map fst ps)"
    then have "budget smb ps \<le> 1" by (rule budget_distinct)
    with le show "breakevens smb fx' \<le> breakevens smb fx + 1" by linarith
  qed
  have c2: "smb \<in> set (map fst ps)
              \<and> (\<forall>pos. (smb, pos) \<in> set ps \<longrightarrow> stop_loss pos = entry_price pos)
            \<longrightarrow> breakevens smb fx' \<le> breakevens smb fx"
  proof
    assume a: "smb \<in> set (map fst ps)
               \<and> (\<forall>pos. (smb, pos) \<in> set ps \<longrightarrow> stop_loss pos = entry_price pos)"
    have "budget smb ps = 0"
      by (rule budget_settled[OF conjunct1[OF a] conjunct2[OF a]])
    with le show "breakevens smb fx' \<le> breakevens smb fx" by linarith
  qed
  obtain r0 ps0 fx0 where
    f: "run_cycles br cfg n [] (logger RunningFVG no_effects) = (r0, ps0, fx0)"
    by (cases "run_cycles br cfg n [] (logger RunningFVG no_effects)")
  have b0: "breakevens smb (logger RunningFVG no_effects) = 0"
    by (simp add: breakevens_def logger_def no_effects_def)
  have b1: "budget smb [] = 1" by (simp add: budget_def)
  from run_cycles_budget[OF f, of smb] b0 b1 have "breakevens smb fx0 \<le> 1" by linarith
  with f have c3: "breakevens smb (snd (snd (run br cfg n))) \<le> 1" by (simp add: run_def)
  have c4: "settled smb ps \<longrightarrow> placements smb fx' = placements smb fx \<and> settled smb ps'"
    using run_cycles_settled[OF assms] by blast
  note c5 = run_two_part_keys[of br cfg n]
  have c6: "\<forall>pos fx0 r1 pos1 fx1. manage_position br smb pos fx0 = (r1, pos1, fx1) \<longrightarrow>
            length (filter is_PlaceOrder (new_calls fx0 fx1)) \<le> 2
            \<and> (filter is_PlaceOrder (new_calls fx0 fx1) \<noteq> []
                 \<longrightarrow> stop_loss pos1 = entry_price pos1)
            \<and> (r1 = None \<and> (\<exists>oid. take 2 (new_calls fx0 fx1) = [GetQuote smb, CancelOrder oid])
                 \<longrightarrow> stop_loss pos1 = entry_price pos1)
            \<and> (stop_loss pos = entry_price pos \<longrightarrow>
                 filter is_PlaceOrder (new_calls fx0 fx1) = []
                 \<and> (\<forall>oid. take 2 (new_calls fx0 fx1) \<noteq> [GetQuote smb, CancelOrder oid])
                 \<and> stop_loss pos1 = entry_price pos1)"
    by (intro allI impI) (rule manage_position_calls)
  from c1 c2 c3 c4 c5 c6 show ?thesis by (intro conjI)
qed

theorem breakeven_at_most_once_witness:
  "distinct (map fst [(''NSE:ACME'', long_pos)])
   \<and> fst (run_cycles moving_broker demo_config 3 [(''NSE:ACME'', long_pos)] no_effects) = None
   \<and> filter (\<lambda>c. c = CancelOrder ''SL1'' \<or> c = CancelOrder ''SL2'')
        (trace (snd (snd (run_cycles moving_broker demo_config 3
                            [(''NSE:ACME'', long_pos)] no_effects)))) = [CancelOrder ''SL1'']
   \<and> breakevens ''NSE:ACME''
        (snd (snd (run_cycles moving_broker demo_config 3 [(''NSE:ACME'', long_pos)] no_effects)))
       = 1
   \<and> placements ''NSE:ACME''
        (snd (snd (run_cycles moving_broker demo_config 3 [(''NSE:ACME'', long_pos)] no_effects)))
       = [PlaceOrder (sl_req (''ACME'', ''NSE'') (long_pos\<lparr>stop_loss := 100\<rparr>)),
          PlaceOrder (tgt_req (''ACME'', ''NSE'') long_pos)]
   \<and> settled ''NSE:ACME'' [(''NSE:ACME'', settled_pos)]
   \<and> placements ''NSE:ACME''
        (snd (snd (run_cycles moving_broker demo_config 3
                     [(''NSE:ACME'', settled_pos)] no_effects))) = []
   \<and> settled ''NSE:ACME''
        (fst (snd (run_cycles moving_broker demo_config 3
                     [(''NSE:ACME'', settled_pos)] no_effects)))
   \<and> filter is_PlaceOrder
        (new_calls no_effects
           (snd (snd (manage_position moving_broker ''NSE:ACME'' long_pos no_effects)))) \<noteq> []
   \<and> take 2 (new_calls no_effects
           (snd (snd (manage_position moving_broker ''NSE:ACME'' long_pos no_effects))))
       = [GetQuote ''NSE:ACME'', CancelOrder ''SL1'']
   \<and> stop_loss (fst (snd (manage_position moving_broker ''NSE:ACME'' long_pos no_effects)))
       = entry_price (fst (snd (manage_position moving_broker ''NSE:ACME'' long_pos no_effects)))
   \<and> stop_loss settled_pos = entry_price settled_pos
   \<and> new_calls no_effects
        (snd (snd (manage_position moving_broker ''NSE:ACME'' settled_pos no_effects)))
       = [GetQuote ''NSE:ACME'', GetOrderStatus ''SL2'', GetOrderStatus ''TG2'']"
proof -
  let ?run = "run_cycles moving_broker demo_config 3 [(''NSE:ACME'', long_pos)] no_effects"
  let ?run2 = "run_cycles moving_broker demo_config 3 [(''NSE:ACME'', settled_pos)] no_effects"
  let ?m1 = "manage_position moving_broker ''NSE:ACME'' long_pos no_effects"
  let ?m2 = "manage_position moving_broker ''NSE:ACME'' settled_pos no_effects"
  have d: "distinct (map fst [(''NSE:ACME'', long_pos)])" by simp
  have ev: "fst ?run = None
            \<and> filter (\<lambda>c. c = CancelOrder ''SL1'' \<or> c = CancelOrder ''SL2'')
                 (trace (snd (snd ?run))) = [CancelOrder ''SL1'']
            \<and> log (snd (snd ?run)) = [AnalyzingFVG, MovedSLToBreakeven ''NSE:ACME'',
                                      AnalyzingFVG, AnalyzingFVG]
            \<and> filter is_PlaceOrder (trace (snd (snd ?run)))
               = [PlaceOrder (sl_req (''ACME'', ''NSE'') (long_pos\<lparr>stop_loss := 100\<rparr>)),
                  PlaceOrder (tgt_req (''ACME'', ''NSE'') long_pos)]"
    by (simp add: numeral_3_eq_3 cycle_def check_open_orders_def check_open_order_def
          analyze_and_trade_def analyze_symbol_def manage_positions_def manage_position_def
          move_to_breakeven_def place_exit_orders_def symbol_exchange_def sl_req_def
          tgt_req_def reconcile_def check_sl_def check_target_def breakeven_due_def float_defs round_double_Ints
          display_table_def display_row_def call_defs moving_broker_def demo_broker_def
          demo_config_def long_pos_def no_effects_def logger_def)
  have p: "?run = (fst ?run, fst (snd ?run), snd (snd ?run))" by simp
  note t1 = breakeven_at_most_once [OF p, of "''NSE:ACME''"]
  from t1 d have "breakevens ''NSE:ACME'' (snd (snd ?run)) \<le> 1"
    by (simp add: breakevens_def no_effects_def)
  moreover from ev have "breakevens ''NSE:ACME'' (snd (snd ?run)) = 1"
    by (simp add: breakevens_def)
  ultimately have b: "breakevens ''NSE:ACME'' (snd (snd ?run)) = 1" by simp
  have s: "settled ''NSE:ACME'' [(''NSE:ACME'', settled_pos)]"
    by (simp add: settled_def entry_ok_def settled_pos_def long_pos_def)
  have p2: "?run2 = (fst ?run2, fst (snd ?run2), snd (snd ?run2))" by simp
  from breakeven_at_most_once [OF p2, of "''NSE:ACME''"] s
  have s2: "placements ''NSE:ACME'' (snd (snd ?run2)) = []" "settled ''NSE:ACME'' (fst (snd ?run2))"
    by (simp_all add: placements_def no_effects_def)
  have m1: "snd (snd ?m1)
            = \<lparr>trace = [GetQuote ''NSE:ACME'', CancelOrder ''SL1'', CancelOrder ''TG1'',
                        PlaceOrder (sl_req (''ACME'', ''NSE'') (long_pos\<lparr>stop_loss := 100\<rparr>)),
                        PlaceOrder (tgt_req (''ACME'', ''NSE'') long_pos),
                        GetOrderStatus ''SL2'', GetOrderStatus ''TG2''],
               log = [MovedSLToBreakeven ''NSE:ACME'']\<rparr>"
    by (simp add: manage_position_def
          move_to_breakeven_def place_exit_orders_def symbol_exchange_def sl_req_def
          tgt_req_def reconcile_def check_sl_def check_target_def breakeven_due_def float_defs round_double_Ints
          call_defs moving_broker_def demo_broker_def long_pos_def no_effects_def logger_def)
  have pm1: "?m1 = (fst ?m1, fst (snd ?m1), snd (snd ?m1))" by simp
  have n1: "filter is_PlaceOrder (new_calls no_effects (snd (snd ?m1))) \<noteq> []"
           "take 2 (new_calls no_effects (snd (snd ?m1)))
              = [GetQuote ''NSE:ACME'', CancelOrder ''SL1'']"
    unfolding m1 by (simp_all add: new_calls_def no_effects_def)
  from t1 pm1 n1(1)
  have k1: "stop_loss (fst (snd ?m1)) = entry_price (fst (snd ?m1))" by blast
  have m2: "new_calls no_effects (snd (snd ?m2))
            = [GetQuote ''NSE:ACME'', GetOrderStatus ''SL2'', GetOrderStatus ''TG2'']"
    by (simp add: manage_position_def new_calls_def
          reconcile_def check_sl_def check_target_def breakeven_due_def float_defs round_double_Ints
          call_defs moving_broker_def demo_broker_def settled_pos_def long_pos_def no_effects_def logger_def)
  have e2: "stop_loss settled_pos = entry_price settled_pos"
    by (simp add: settled_pos_def long_pos_def)
  have pl: "placements ''NSE:ACME'' (snd (snd ?run))
            = [PlaceOrder (sl_req (''ACME'', ''NSE'') (long_pos\<lparr>stop_loss := 100\<rparr>)),
               PlaceOrder (tgt_req (''ACME'', ''NSE'') long_pos)]"
  proof -
    have "order_for ''NSE:ACME'' c = (is_PlaceOrder c \<and> order_for ''NSE:ACME'' c)" for c
      by (cases c) simp_all
    then have "filter (order_for ''NSE:ACME'') tr
               = filter (order_for ''NSE:ACME'') (filter is_PlaceOrder tr)" for tr
      unfolding filter_filter by (intro filter_cong) simp_all
    then have "placements ''NSE:ACME'' (snd (snd ?run))
               = filter (order_for ''NSE:ACME'') (filter is_PlaceOrder (trace (snd (snd ?run))))"
      unfolding placements_def .
    also have "\<dots> = [PlaceOrder (sl_req (''ACME'', ''NSE'') (long_pos\<lparr>stop_loss := 100\<rparr>)),
                     PlaceOrder (tgt_req (''ACME'', ''NSE'') long_pos)]"
      unfolding conjunct2[OF conjunct2[OF conjunct2[OF ev]]]
      by (simp add: sl_req_def tgt_req_def)
    finally show ?thesis .
  qed
  from d ev b pl s s2 n1 k1 e2 m2 show ?thesis by (intro conjI) simp_all
qed

section \<open>Properties of FVGStrategy: one position per symbol\<close>




lemma created_logger [simp]:
  "positions_created smb (logger m fx)
   = positions_created smb fx + (if is_position_created smb m then 1 else 0)"
  by (simp add: positions_created_def logger_def)

lemma created_trace [simp]:
  "positions_created smb (fx\<lparr>trace := t\<rparr>) = positions_created smb fx"
  by (simp add: positions_created_def)

lemma same_position_refl [simp]: "same_position p p"
  by (simp add: same_position_def)











lemma kept_refl [simp]: "kept ps ps"
  by (simp add: kept_def list_all2_conv_all_nth same_entry_def)

lemma kept_append [simp]: "kept ps (ps @ xs)"
  by (simp add: kept_def list_all2_conv_all_nth same_entry_def)




















text \<open>
  The hypothesis on the candles is needed: when the last candle has its high below its
  low, the long test and the short test of one pass (lines 100 and 101) can both succeed,
  and the second call of \<open>_place_order\<close> stores a second position over the first.
\<close>

lemma crossed_candles_two_positions:
  "analyze_and_trade (trading_broker\<lparr>get_history := (\<lambda>h s. Inr crossed_candles)\<rparr>)
     demo_config [] no_effects
   = (None,
      [(''NSE:ACME'', \<lparr>order_id = ''SL2'', entry_price = 101, stop_loss = 103, target = 97,
                        status = PENDING_ENTRY, ptype = SHORT,
                        sl_order_id = None, target_order_id = None\<rparr>)],
      \<lparr>trace = [GetHistory ''NSE:ACME'',
                PlaceOrder \<lparr>symbol = ''ACME'', exchange = ''NSE'', transaction_type = BUY,
                            quantity = 1, product_type = MARGIN, order_type = STOP,
                            price = 97, stop_price = Some 97\<rparr>,
                PlaceOrder \<lparr>symbol = ''ACME'', exchange = ''NSE'', transaction_type = SELL,
                            quantity = 1, product_type = MARGIN, order_type = STOP,
                            price = 101, stop_price = Some 101\<rparr>],
       log = [AnalyzingFVG, LongEntryMet ''NSE:ACME'' 97 99 93, OrderPlaced ''NSE:ACME'' ''E1'',
              ShortEntryMet ''NSE:ACME'' 101 103 97, OrderPlaced ''NSE:ACME'' ''SL2'']\<rparr>)"
  by (simp add: analyze_and_trade_def analyze_symbol_def analyze_try_def
        check_long_entry_conditions_def check_short_entry_conditions_def
        strategy_place_order_def is_bullish_fvg_def is_bearish_fvg_def Let_def
        float_defs round_double_Ints numeral_3_eq_3
        call_defs trading_broker_def demo_broker_def demo_config_def crossed_candles_def
        no_effects_def logger_def)



end
